theory Spec2Isabelle
  imports Main
begin

section \<open>JavaScript values and results\<close>

text \<open>
  The helpers of \<^verbatim>\<open>utils/dom.js\<close> and the Arrows component are embedded as functions
  on an explicit document store. An exception of the source is a value: a function that
  can throw returns \<open>error + 'a\<close>, with \<open>Inl\<close> the exception. \<open>TypeError\<close> is what
  JavaScript raises on a property access on \<^verbatim>\<open>null\<close> or \<^verbatim>\<open>undefined\<close>; the two
  others are raised by the browser: by \<^verbatim>\<open>createElement\<close>, \<^verbatim>\<open>setAttribute\<close> and
  \<^verbatim>\<open>classList\<close> on a name they do not accept, and by \<^verbatim>\<open>querySelector\<close>.
\<close>

datatype error = TypeError | InvalidCharacterError | SyntaxError

text \<open>
  A number of the model is a safe integer: an integer between \<open>-(2^53 - 1)\<close> and
  \<open>2^53 - 1\<close>. These are numbers of JavaScript as they stand, and their string is their
  plain decimal form. Fractions, larger numbers, the negative zero, \<^verbatim>\<open>NaN\<close> and the
  infinities are not values of the model, nor are objects.
\<close>

typedef safe_integer = "{n :: int. - 9007199254740991 \<le> n \<and> n \<le> 9007199254740991}"
  by (rule exI [of _ 0]) simp

datatype js_value = JString string | JNumber safe_integer | JBoolean bool | JNull | JUndefined

fun truthy :: "js_value \<Rightarrow> bool" where
  "truthy (JString s) = (s \<noteq> [])"
| "truthy (JNumber n) = (Rep_safe_integer n \<noteq> 0)"
| "truthy (JBoolean b) = b"
| "truthy JNull = False"
| "truthy JUndefined = False"

fun digits :: "nat \<Rightarrow> string" where
  "digits n = (if n < 10 then [''0123456789'' ! n]
               else digits (n div 10) @ [''0123456789'' ! (n mod 10)])"

declare digits.simps [simp del]

text \<open>The string a value is converted to where the DOM expects a string.\<close>

fun ToString :: "js_value \<Rightarrow> string" where
  "ToString (JString s) = s"
| "ToString (JNumber n) =
     (if Rep_safe_integer n < 0 then CHR ''-'' # digits (nat (- Rep_safe_integer n))
      else digits (nat (Rep_safe_integer n)))"
| "ToString (JBoolean b) = (if b then ''true'' else ''false'')"
| "ToString JNull = ''null''"
| "ToString JUndefined = ''undefined''"

text \<open>
  Modelled from the spec: \<^verbatim>\<open>toArray\<close> of \<^verbatim>\<open>./utils\<close>, which is not among the
  sources. The helpers that use it "accept a single element or an array" (a single class
  name or an array of names, a single attribute name or an array): a single value stands
  for the array holding it.
\<close>

datatype 'a one_or_many = Single 'a | Many "'a list"

fun toArray :: "'a one_or_many \<Rightarrow> 'a list" where
  "toArray (Single x) = [x]"
| "toArray (Many xs) = xs"

subsection \<open>Names\<close>

text \<open>
  The browser lower-cases the name of an element and of an attribute of an HTML
  element, and refuses a name that is not valid. A name made of an ASCII letter followed
  by ASCII letters, digits, \<^verbatim>\<open>-\<close>, \<^verbatim>\<open>_\<close> and \<^verbatim>\<open>.\<close> is valid in every browser;
  the empty name and a name that contains whitespace are valid in none.
\<close>

definition ascii_whitespace :: "char \<Rightarrow> bool" where
  "ascii_whitespace c \<longleftrightarrow> c \<in> set [CHR 0x09, CHR 0x0A, CHR 0x0C, CHR 0x0D, CHR '' '']"

definition ascii_alpha :: "char \<Rightarrow> bool" where
  "ascii_alpha c \<longleftrightarrow> c \<in> set ''abcdefghijklmnopqrstuvwxyzABCDEFGHIJKLMNOPQRSTUVWXYZ''"

definition ascii_digit :: "char \<Rightarrow> bool" where
  "ascii_digit c \<longleftrightarrow> c \<in> set ''0123456789''"

definition plain_name :: "string \<Rightarrow> bool" where
  "plain_name n =
     (case n of
        [] \<Rightarrow> False
      | c # cs \<Rightarrow>
          ascii_alpha c \<and> list_all (\<lambda>x. ascii_alpha x \<or> ascii_digit x \<or> x \<in> set ''-_.'') cs)"

definition ascii_lowercase :: "string \<Rightarrow> string" where
  "ascii_lowercase s =
     map (\<lambda>c. case map_of (zip ''ABCDEFGHIJKLMNOPQRSTUVWXYZ'' ''abcdefghijklmnopqrstuvwxyz'') c of
                None \<Rightarrow> c
              | Some l \<Rightarrow> l) s"

section \<open>The document\<close>

text \<open>
  A node is a reference (a natural number); a nullable reference of the source is a
  \<open>nat option\<close>, with \<open>None\<close> for \<^verbatim>\<open>null\<close> and \<^verbatim>\<open>undefined\<close>. The document gives
  every field of every node; \<open>next_id\<close> is the first reference that is not yet in use.
  Only element and text nodes occur, in an HTML document; \<open>htmlNamespace\<close> tells the
  HTML elements from the SVG and MathML elements the parser makes. \<open>tagName\<close> holds
  the local name of an element: its tag, in lower case for an HTML element. The \<^verbatim>\<open>class\<close> attribute and
  \<^verbatim>\<open>classList\<close> are one piece of state, as in the browser: the class list is read from
  the attribute and written back to it.
\<close>

datatype node_type = ELEMENT_NODE | TEXT_NODE

record dom =
  nodeType :: "nat \<Rightarrow> node_type"
  htmlNamespace :: "nat \<Rightarrow> bool"
  tagName :: "nat \<Rightarrow> string"
  textData :: "nat \<Rightarrow> string"
  attributes :: "nat \<Rightarrow> string \<Rightarrow> string option"
  style :: "nat \<Rightarrow> string \<Rightarrow> string"
  childNodes :: "nat \<Rightarrow> nat list"
  parentNode :: "nat \<Rightarrow> nat option"
  next_id :: nat

definition parentElement :: "dom \<Rightarrow> nat \<Rightarrow> nat option" where
  "parentElement d e =
     (case parentNode d e of
        None \<Rightarrow> None
      | Some p \<Rightarrow> if nodeType d p = ELEMENT_NODE then Some p else None)"

definition children :: "dom \<Rightarrow> nat \<Rightarrow> nat list" where
  "children d p = filter (\<lambda>c. nodeType d c = ELEMENT_NODE) (childNodes d p)"

definition firstChild :: "dom \<Rightarrow> nat \<Rightarrow> nat option" where
  "firstChild d p = (case childNodes d p of [] \<Rightarrow> None | c # _ \<Rightarrow> Some c)"

definition firstElementChild :: "dom \<Rightarrow> nat \<Rightarrow> nat option" where
  "firstElementChild d p = (case children d p of [] \<Rightarrow> None | c # _ \<Rightarrow> Some c)"

subsection \<open>What the browser supplies\<close>

text \<open>
  Three algorithms of the browser are parameters of the model: the HTML parser behind
  \<^verbatim>\<open>innerHTML\<close>, which turns a string into a list of trees (of HTML elements, of
  foreign elements, which are those of SVG and MathML, and of texts); the selector
  engine behind \<^verbatim>\<open>querySelector\<close>, which yields the first matching descendant,
  \<^verbatim>\<open>null\<close>, or an exception for a selector that does not parse; and the check of the
  names that are neither plain nor without any doubt invalid.
\<close>

datatype fragment =
    FElement string "(string \<times> string) list" "fragment list"
  | FForeign string "(string \<times> string) list" "fragment list"
  | FText string

record browser =
  parseHTML :: "string \<Rightarrow> fragment list"
  querySelector :: "dom \<Rightarrow> nat \<Rightarrow> string \<Rightarrow> error + nat option"
  element_name :: "string \<Rightarrow> bool"
  attribute_name :: "string \<Rightarrow> bool"

definition valid_element_name :: "browser \<Rightarrow> string \<Rightarrow> bool" where
  "valid_element_name b n \<longleftrightarrow>
     plain_name n \<or> (n \<noteq> [] \<and> \<not> list_ex ascii_whitespace n \<and> element_name b n)"

definition valid_attribute_name :: "browser \<Rightarrow> string \<Rightarrow> bool" where
  "valid_attribute_name b n \<longleftrightarrow>
     plain_name n \<or> (n \<noteq> [] \<and> \<not> list_ex ascii_whitespace n \<and> attribute_name b n)"

subsection \<open>Creating nodes\<close>

text \<open>
  \<open>new_node\<close> is what the parser and \<^verbatim>\<open>createElement\<close> share; \<open>createElement\<close> is
  \<^verbatim>\<open>document.createElement\<close>, which checks the name and lower-cases it.
\<close>

definition new_node :: "node_type \<Rightarrow> bool \<Rightarrow> string \<Rightarrow> string \<Rightarrow> dom \<Rightarrow> nat \<times> dom" where
  "new_node ty html tag txt d =
     (next_id d,
      d\<lparr>nodeType := (nodeType d)(next_id d := ty),
        htmlNamespace := (htmlNamespace d)(next_id d := html),
        tagName := (tagName d)(next_id d := tag),
        textData := (textData d)(next_id d := txt),
        attributes := (attributes d)(next_id d := (\<lambda>_. None)),
        style := (style d)(next_id d := (\<lambda>_. [])),
        childNodes := (childNodes d)(next_id d := []),
        parentNode := (parentNode d)(next_id d := None),
        next_id := Suc (next_id d)\<rparr>)"

definition createElement :: "browser \<Rightarrow> string \<Rightarrow> dom \<Rightarrow> error + nat \<times> dom" where
  "createElement b tag d =
     (if valid_element_name b tag then Inr (new_node ELEMENT_NODE True (ascii_lowercase tag) [] d)
      else Inl InvalidCharacterError)"

definition createTextNode :: "string \<Rightarrow> dom \<Rightarrow> nat \<times> dom" where
  "createTextNode txt d = new_node TEXT_NODE False [] txt d"

subsection \<open>Tree mutation\<close>

text \<open>
  \<open>removeChild\<close>, \<open>appendChild\<close> and \<open>insertBefore\<close> are the browser's operations on
  a node that is not null. Inserting a node first takes it out of the parent it has.
  The browser's refusal to insert a node below itself is outside the model.
\<close>

definition removeChild :: "nat \<Rightarrow> nat \<Rightarrow> dom \<Rightarrow> dom" where
  "removeChild p c d =
     (let d1 = d\<lparr>childNodes := (childNodes d)(p := removeAll c (childNodes d p))\<rparr>
      in d1\<lparr>parentNode := (parentNode d1)(c := None)\<rparr>)"

definition detach :: "nat \<Rightarrow> dom \<Rightarrow> dom" where
  "detach c d = (case parentNode d c of None \<Rightarrow> d | Some p \<Rightarrow> removeChild p c d)"

definition appendChild :: "nat \<Rightarrow> nat \<Rightarrow> dom \<Rightarrow> dom" where
  "appendChild p c d =
     (let d1 = detach c d;
          d2 = d1\<lparr>childNodes := (childNodes d1)(p := childNodes d1 p @ [c])\<rparr>
      in d2\<lparr>parentNode := (parentNode d2)(c := Some p)\<rparr>)"

definition insert_before :: "nat \<Rightarrow> nat \<Rightarrow> nat list \<Rightarrow> nat list" where
  "insert_before c r xs = takeWhile (\<lambda>x. x \<noteq> r) xs @ c # dropWhile (\<lambda>x. x \<noteq> r) xs"

definition insertBefore :: "nat \<Rightarrow> nat \<Rightarrow> nat \<Rightarrow> dom \<Rightarrow> dom" where
  "insertBefore p c r d =
     (if c = r then d
      else let d1 = detach c d;
               d2 = d1\<lparr>childNodes := (childNodes d1)(p := insert_before c r (childNodes d1 p))\<rparr>
           in d2\<lparr>parentNode := (parentNode d2)(c := Some p)\<rparr>)"

subsection \<open>Attributes and the class list\<close>

definition elm_setAttribute :: "nat \<Rightarrow> string \<Rightarrow> string \<Rightarrow> dom \<Rightarrow> dom" where
  "elm_setAttribute e name v d = d\<lparr>attributes := (attributes d)(e := (attributes d e)(name \<mapsto> v))\<rparr>"

definition elm_removeAttribute :: "nat \<Rightarrow> string \<Rightarrow> dom \<Rightarrow> dom" where
  "elm_removeAttribute e name d = d\<lparr>attributes := (attributes d)(e := (attributes d e)(name := None))\<rparr>"

text \<open>
  The three methods of an element take a name as the caller writes it: on an HTML
  element the name is lower-cased, and \<^verbatim>\<open>setAttribute\<close> first checks it.
\<close>

definition attribute_key :: "dom \<Rightarrow> nat \<Rightarrow> string \<Rightarrow> string" where
  "attribute_key d e name = (if htmlNamespace d e then ascii_lowercase name else name)"

definition element_setAttribute :: "browser \<Rightarrow> nat \<Rightarrow> string \<Rightarrow> string \<Rightarrow> dom \<Rightarrow> error + dom" where
  "element_setAttribute b e name v d =
     (if valid_attribute_name b name then Inr (elm_setAttribute e (attribute_key d e name) v d)
      else Inl InvalidCharacterError)"

definition element_getAttribute :: "dom \<Rightarrow> nat \<Rightarrow> string \<Rightarrow> string option" where
  "element_getAttribute d e name = attributes d e (attribute_key d e name)"

definition element_removeAttribute :: "nat \<Rightarrow> string \<Rightarrow> dom \<Rightarrow> dom" where
  "element_removeAttribute e name d = elm_removeAttribute e (attribute_key d e name) d"

text \<open>Splitting on whitespace: \<open>cur\<close> is the token being read.\<close>

fun split_ws :: "string \<Rightarrow> string \<Rightarrow> string list" where
  "split_ws cur [] = (if cur = [] then [] else [cur])"
| "split_ws cur (c # cs) =
     (if ascii_whitespace c then (if cur = [] then split_ws [] cs else cur # split_ws [] cs)
      else split_ws (cur @ [c]) cs)"

definition ordered_set :: "string list \<Rightarrow> string list" where
  "ordered_set ts = fold (\<lambda>t acc. if t \<in> set acc then acc else acc @ [t]) ts []"

fun serialize :: "string list \<Rightarrow> string" where
  "serialize [] = []"
| "serialize [t] = t"
| "serialize (t # ts) = t @ CHR '' '' # serialize ts"

definition class_tokens :: "dom \<Rightarrow> nat \<Rightarrow> string list" where
  "class_tokens d e =
     (case attributes d e ''class'' of None \<Rightarrow> [] | Some v \<Rightarrow> ordered_set (split_ws [] v))"

definition update_class :: "nat \<Rightarrow> string list \<Rightarrow> dom \<Rightarrow> dom" where
  "update_class e ts d =
     (if attributes d e ''class'' = None \<and> ts = [] then d
      else elm_setAttribute e ''class'' (serialize ts) d)"

definition check_token :: "string \<Rightarrow> error option" where
  "check_token t =
     (if t = [] then Some SyntaxError
      else if list_ex ascii_whitespace t then Some InvalidCharacterError
      else None)"

definition valid_token :: "string \<Rightarrow> bool" where
  "valid_token t \<longleftrightarrow> t \<noteq> [] \<and> \<not> list_ex ascii_whitespace t"

definition classList_add :: "nat \<Rightarrow> string \<Rightarrow> dom \<Rightarrow> error + dom" where
  "classList_add e t d =
     (case check_token t of
        Some err \<Rightarrow> Inl err
      | None \<Rightarrow>
          Inr (update_class e
                 (if t \<in> set (class_tokens d e) then class_tokens d e
                  else class_tokens d e @ [t]) d))"

definition classList_remove :: "nat \<Rightarrow> string \<Rightarrow> dom \<Rightarrow> error + dom" where
  "classList_remove e t d =
     (case check_token t of
        Some err \<Rightarrow> Inl err
      | None \<Rightarrow> Inr (update_class e (removeAll t (class_tokens d e)) d))"

definition classList_contains :: "dom \<Rightarrow> nat \<Rightarrow> string \<Rightarrow> bool" where
  "classList_contains d e t \<longleftrightarrow> t \<in> set (class_tokens d e)"

section \<open>Parsed trees and the class list in the document\<close>

text \<open>
  Building the nodes of a parsed tree below the parent \<open>p\<close>, in document order. The
  parser gives names and attributes as they are to stand.
\<close>

fun build :: "nat \<Rightarrow> fragment \<Rightarrow> dom \<Rightarrow> dom"
  and build_all :: "nat \<Rightarrow> fragment list \<Rightarrow> dom \<Rightarrow> dom" where
  "build p (FText t) d = (case createTextNode t d of (n, d1) \<Rightarrow> appendChild p n d1)"
| "build p (FElement tag as cs) d =
     (case new_node ELEMENT_NODE True tag [] d of (n, d1) \<Rightarrow>
        build_all n cs (appendChild p n (fold (\<lambda>(k, v). elm_setAttribute n k v) as d1)))"
| "build p (FForeign tag as cs) d =
     (case new_node ELEMENT_NODE False tag [] d of (n, d1) \<Rightarrow>
        build_all n cs (appendChild p n (fold (\<lambda>(k, v). elm_setAttribute n k v) as d1)))"
| "build_all p [] d = d"
| "build_all p (f # fs) d = build_all p fs (build p f d)"

definition set_innerHTML :: "browser \<Rightarrow> nat \<Rightarrow> string \<Rightarrow> dom \<Rightarrow> dom" where
  "set_innerHTML b e html d = build_all e (parseHTML b html) (fold (removeChild e) (childNodes d e) d)"

section \<open>The DOM helpers\<close>

text \<open>
  Modelled from the spec: \<^verbatim>\<open>each\<close> and \<^verbatim>\<open>values\<close> of \<^verbatim>\<open>./object\<close>, which are not
  among the sources. \<open>each\<close> applies the callback to "each key/value" of an object, here
  a list of pairs in key order, and ends where the callback raises; \<open>values_of\<close> gives
  the entries of \<^verbatim>\<open>parent.children\<close> as an array.
\<close>

fun each :: "(string \<times> js_value) list \<Rightarrow> (js_value \<Rightarrow> string \<Rightarrow> dom \<Rightarrow> error + dom) \<Rightarrow> dom \<Rightarrow> error + dom" where
  "each [] callback d = Inr d"
| "each ((key, v) # obj) callback d =
     (case callback v key d of
        Inl err \<Rightarrow> Inl err
      | Inr d1 \<Rightarrow> each obj callback d1)"

definition values_of :: "nat list \<Rightarrow> nat list" where
  "values_of xs = xs"

text \<open>\<^verbatim>\<open>s.split(' ')[0]\<close>: the part of \<open>s\<close> before its first space.\<close>

definition split_first :: "string \<Rightarrow> string" where
  "split_first s = takeWhile (\<lambda>c. c \<noteq> CHR '' '') s"

definition find_dom :: "browser \<Rightarrow> nat option \<Rightarrow> string \<Rightarrow> dom \<Rightarrow> error + nat option" where
  "find_dom b elm selector d =
     (case elm of
        None \<Rightarrow> Inr None
      | Some e \<Rightarrow> if selector \<noteq> [] then querySelector b d e (split_first selector) else Inr None)"

definition hasClass :: "nat option \<Rightarrow> string \<Rightarrow> dom \<Rightarrow> bool" where
  "hasClass elm className d = (case elm of None \<Rightarrow> False | Some e \<Rightarrow> classList_contains d e className)"

definition child :: "nat option \<Rightarrow> string \<Rightarrow> dom \<Rightarrow> nat option" where
  "child parent className d =
     (case parent of
        None \<Rightarrow> None
      | Some p \<Rightarrow>
          (case filter (\<lambda>c. hasClass (Some c) (split_first className) d) (values_of (children d p)) of
             [] \<Rightarrow> None
           | c # _ \<Rightarrow> Some c))"

definition setAttribute :: "browser \<Rightarrow> nat option \<Rightarrow> string \<Rightarrow> js_value \<Rightarrow> dom \<Rightarrow> error + dom" where
  "setAttribute b elm name v d =
     (case elm of None \<Rightarrow> Inr d | Some e \<Rightarrow> element_setAttribute b e name (ToString v) d)"

definition getAttribute :: "nat option \<Rightarrow> string \<Rightarrow> dom \<Rightarrow> string option" where
  "getAttribute elm name d = (case elm of None \<Rightarrow> None | Some e \<Rightarrow> element_getAttribute d e name)"

definition removeAttribute :: "nat option \<Rightarrow> string one_or_many \<Rightarrow> dom \<Rightarrow> dom" where
  "removeAttribute elm names d =
     (case elm of
        None \<Rightarrow> d
      | Some e \<Rightarrow> fold (\<lambda>name. element_removeAttribute e name) (toArray names) d)"

definition create :: "browser \<Rightarrow> string \<Rightarrow> (string \<times> js_value) list \<Rightarrow> dom \<Rightarrow> error + nat \<times> dom" where
  "create b tag attrs d =
     (case createElement b tag d of
        Inl err \<Rightarrow> Inl err
      | Inr (elm, d1) \<Rightarrow>
          (case each attrs (\<lambda>v key. setAttribute b (Some elm) key v) d1 of
             Inl err \<Rightarrow> Inl err
           | Inr d2 \<Rightarrow> Inr (elm, d2)))"

definition domify :: "browser \<Rightarrow> string \<Rightarrow> dom \<Rightarrow> error + nat option \<times> dom" where
  "domify b html d =
     (case create b ''div'' [] d of
        Inl err \<Rightarrow> Inl err
      | Inr (dv, d1) \<Rightarrow> (let d2 = set_innerHTML b dv html d1 in Inr (firstChild d2 dv, d2)))"

text \<open>
  \<^verbatim>\<open>elm && elm.parentElement.removeChild( elm )\<close>: a null entry is skipped; for any
  other entry \<^verbatim>\<open>parentElement\<close> is dereferenced, which raises when it is null.
\<close>

fun remove_each :: "nat option list \<Rightarrow> dom \<Rightarrow> error + dom" where
  "remove_each [] d = Inr d"
| "remove_each (None # elms) d = remove_each elms d"
| "remove_each (Some elm # elms) d =
     (case parentElement d elm of
        None \<Rightarrow> Inl TypeError
      | Some p \<Rightarrow> remove_each elms (removeChild p elm d))"

definition remove_dom :: "nat option one_or_many \<Rightarrow> dom \<Rightarrow> error + dom" where
  "remove_dom elms d = remove_each (toArray elms) d"

text \<open>\<^verbatim>\<open>parent.appendChild( child )\<close> raises when \<open>child\<close> is not a node.\<close>

definition append_dom :: "nat option \<Rightarrow> nat option \<Rightarrow> dom \<Rightarrow> error + dom" where
  "append_dom parent chld d =
     (case parent of
        None \<Rightarrow> Inr d
      | Some p \<Rightarrow> (case chld of None \<Rightarrow> Inl TypeError | Some c \<Rightarrow> Inr (appendChild p c d)))"

definition before :: "nat option \<Rightarrow> nat option \<Rightarrow> dom \<Rightarrow> dom" where
  "before elm ref d =
     (case elm of
        None \<Rightarrow> d
      | Some e \<Rightarrow>
          (case ref of
             None \<Rightarrow> d
           | Some r \<Rightarrow>
               (case parentElement d r of
                  None \<Rightarrow> d
                | Some p \<Rightarrow> insertBefore p e r d)))"

definition applyStyle :: "nat option \<Rightarrow> (string \<times> js_value) list \<Rightarrow> dom \<Rightarrow> error + dom" where
  "applyStyle elm styles d =
     (case elm of
        None \<Rightarrow> Inr d
      | Some e \<Rightarrow>
          each styles
            (\<lambda>v prop d'.
               Inr (d'\<lparr>style := (style d')(e := (style d' e)(prop := (if truthy v then ToString v else [])))\<rparr>))
            d)"

fun classes_each :: "nat \<Rightarrow> bool \<Rightarrow> string list \<Rightarrow> dom \<Rightarrow> error + dom" where
  "classes_each e rm [] d = Inr d"
| "classes_each e rm (name # names) d =
     (if name \<noteq> [] then
        (case (if rm then classList_remove e name d else classList_add e name d) of
           Inl err \<Rightarrow> Inl err
         | Inr d1 \<Rightarrow> classes_each e rm names d1)
      else classes_each e rm names d)"

definition addOrRemoveClasses :: "nat option \<Rightarrow> string one_or_many \<Rightarrow> bool \<Rightarrow> dom \<Rightarrow> error + dom" where
  "addOrRemoveClasses elm classes rm d =
     (case elm of None \<Rightarrow> Inr d | Some e \<Rightarrow> classes_each e rm (toArray classes) d)"

definition addClass :: "nat option \<Rightarrow> string one_or_many \<Rightarrow> dom \<Rightarrow> error + dom" where
  "addClass elm classes d = addOrRemoveClasses elm classes False d"

definition removeClass :: "nat option \<Rightarrow> string one_or_many \<Rightarrow> dom \<Rightarrow> error + dom" where
  "removeClass elm classes d = addOrRemoveClasses elm classes True d"

section \<open>The Arrows component\<close>

text \<open>
  The component reads the host (\<^verbatim>\<open>Splide\<close> and \<^verbatim>\<open>Components\<close>) and never writes it.
  \<open>splide\<close> holds what stays fixed over the life of a component: the options, the class
  names, the root, the elements found in the markup by \<^verbatim>\<open>Components.Elements\<close> and the
  constants of \<^verbatim>\<open>./path\<close>, which are not among the sources and are taken as given.
  \<open>navigation\<close> holds what is read anew at every update: the two target indices of
  \<^verbatim>\<open>Components.Controller\<close>, \<^verbatim>\<open>Splide.length\<close> and \<^verbatim>\<open>Splide.options.perPage\<close>.
\<close>

datatype arrows_option = ArrowsBool bool | ArrowsString string

fun option_truthy :: "arrows_option \<Rightarrow> bool" where
  "option_truthy (ArrowsBool b) = b"
| "option_truthy (ArrowsString s) = (s \<noteq> [])"

record splide =
  options_arrows :: arrows_option
  options_perMove :: safe_integer
  options_arrowPath :: string
  classes_arrows :: string
  classes_arrow :: string
  classes_prev :: string
  classes_next :: string
  root :: nat
  name :: string
  elements_prev :: "nat option"
  elements_next :: "nat option"
  elements_slider :: "nat option"
  XML_NAME_SPACE :: string
  PATH :: string
  SIZE :: string

record navigation =
  prevIndex :: int
  nextIndex :: int
  splide_length :: int
  options_perPage :: int

text \<open>
  The state of one component: the three variables of the closure, the field
  \<^verbatim>\<open>this.arrows\<close>, the listeners registered with \<^verbatim>\<open>Splide.on\<close>, the notifications
  given to \<^verbatim>\<open>Splide.emit\<close>, the controls given to \<^verbatim>\<open>Splide.go\<close>, and the document.
  \<open>created\<close> is \<^verbatim>\<open>undefined\<close> until it is set, which is \<open>False\<close> here.
\<close>

datatype listener = OnClick "nat option" bool | OnEvents "string list"

datatype notification = Notify string "nat option" "nat option" "int list"

record arrows =
  prev :: "nat option"
  next_arrow :: "nat option"
  created :: bool
  arrows_field :: "(nat option \<times> nat option) option"
  listeners :: "listener list"
  emitted :: "notification list"
  went :: "string list"
  document :: dom

text \<open>
  The arrows are \<^verbatim>\<open>button\<close> elements: their property \<^verbatim>\<open>disabled\<close> is true exactly
  when the attribute of that name is present.
\<close>

definition set_disabled :: "nat \<Rightarrow> bool \<Rightarrow> dom \<Rightarrow> dom" where
  "set_disabled e v d =
     (if v then elm_setAttribute e ''disabled'' [] d else elm_removeAttribute e ''disabled'' d)"

definition disabled :: "dom \<Rightarrow> nat \<Rightarrow> bool" where
  "disabled d e \<longleftrightarrow> attributes d e ''disabled'' \<noteq> None"

definition arrow_html :: "splide \<Rightarrow> bool \<Rightarrow> string" where
  "arrow_html h prv =
     ''<button class='' @ [CHR 0x22] @ classes_arrow h @ '' ''
       @ (if prv then classes_prev h else classes_next h) @ [CHR 0x22] @ ''>''
     @ ''<svg xmlns='' @ [CHR 0x22] @ XML_NAME_SPACE h @ [CHR 0x22, CHR 0x09]
       @ ''viewBox='' @ [CHR 0x22] @ ''0 0 '' @ SIZE h @ '' '' @ SIZE h @ [CHR 0x22, CHR 0x09]
       @ ''width='' @ [CHR 0x22] @ SIZE h @ [CHR 0x22, CHR 0x09]
       @ ''height='' @ [CHR 0x22] @ SIZE h @ [CHR 0x22] @ ''>''
     @ ''<path d='' @ [CHR 0x22]
       @ (if options_arrowPath h \<noteq> [] then options_arrowPath h else PATH h)
       @ [CHR 0x22] @ '' />''"

definition createArrow :: "browser \<Rightarrow> splide \<Rightarrow> bool \<Rightarrow> dom \<Rightarrow> error + nat option \<times> dom" where
  "createArrow b h prv d = domify b (arrow_html h prv) d"

definition arrows_parent :: "splide \<Rightarrow> nat" where
  "arrows_parent h =
     (case elements_slider h of
        None \<Rightarrow> root h
      | Some slider \<Rightarrow> if options_arrows h = ArrowsString ''slider'' then slider else root h)"

definition appendArrows :: "browser \<Rightarrow> splide \<Rightarrow> arrows \<Rightarrow> error + arrows" where
  "appendArrows b h s =
     (case create b ''div'' [(''class'', JString (classes_arrows h))] (document s) of
        Inl err \<Rightarrow> Inl err
      | Inr (wrapper, d1) \<Rightarrow>
          (case append_dom (Some wrapper) (prev s) d1 of
             Inl err \<Rightarrow> Inl err
           | Inr d2 \<Rightarrow>
               (case append_dom (Some wrapper) (next_arrow s) d2 of
                  Inl err \<Rightarrow> Inl err
                | Inr d3 \<Rightarrow>
                    (let parent = arrows_parent h
                     in Inr (s\<lparr>document := before (Some wrapper) (firstElementChild d3 parent) d3\<rparr>)))))"

definition bind_listeners :: "arrows \<Rightarrow> arrows" where
  "bind_listeners s =
     s\<lparr>listeners := listeners s
          @ [OnClick (prev s) True, OnClick (next_arrow s) False,
             OnEvents [''mounted'', ''move'', ''updated'']]\<rparr>"

definition mount :: "browser \<Rightarrow> splide \<Rightarrow> arrows \<Rightarrow> error + arrows" where
  "mount b h s =
     (let s1 = s\<lparr>prev := elements_prev h, next_arrow := elements_next h\<rparr>
      in case (if (prev s1 = None \<or> next_arrow s1 = None) \<and> option_truthy (options_arrows h)
               then (case createArrow b h True (document s1) of
                       Inl err \<Rightarrow> Inl err
                     | Inr (p, d1) \<Rightarrow>
                         (case createArrow b h False d1 of
                            Inl err \<Rightarrow> Inl err
                          | Inr (n, d2) \<Rightarrow>
                              appendArrows b h
                                (s1\<lparr>prev := p, next_arrow := n, created := True, document := d2\<rparr>)))
               else Inr s1) of
           Inl err \<Rightarrow> Inl err
         | Inr s2 \<Rightarrow>
             (let s3 = (if prev s2 \<noteq> None \<and> next_arrow s2 \<noteq> None then bind_listeners s2 else s2)
              in Inr (s3\<lparr>arrows_field := Some (prev s3, next_arrow s3)\<rparr>)))"

definition mounted :: "splide \<Rightarrow> arrows \<Rightarrow> arrows" where
  "mounted h s = s\<lparr>emitted := emitted s @ [Notify (name h @ '':mounted'') (prev s) (next_arrow s) []]\<rparr>"

definition destroy :: "arrows \<Rightarrow> error + arrows" where
  "destroy s =
     (let d1 = fold (\<lambda>elm. removeAttribute elm (Single ''disabled'')) [prev s, next_arrow s] (document s)
      in if created s then
           (case prev s of
              None \<Rightarrow> Inl TypeError
            | Some p \<Rightarrow>
                (case remove_dom (Single (parentElement d1 p)) d1 of
                   Inl err \<Rightarrow> Inl err
                 | Inr d2 \<Rightarrow> Inr (s\<lparr>document := d2\<rparr>)))
         else Inr (s\<lparr>document := d1\<rparr>))"

definition onClick :: "splide \<Rightarrow> bool \<Rightarrow> arrows \<Rightarrow> arrows" where
  "onClick h prv s =
     s\<lparr>went := went s
          @ [if Rep_safe_integer (options_perMove h) \<noteq> 0
             then (if prv then ''-'' else ''+'') @ ToString (JNumber (options_perMove h))
             else (if prv then ''<'' else ''>'')]\<rparr>"

definition updateDisabled :: "splide \<Rightarrow> navigation \<Rightarrow> arrows \<Rightarrow> error + arrows" where
  "updateDisabled h nav s =
     (let isEnough = (splide_length nav > options_perPage nav)
      in case prev s of
           None \<Rightarrow> Inl TypeError
         | Some p \<Rightarrow>
             (let d1 = set_disabled p (prevIndex nav < 0 \<or> \<not> isEnough) (document s)
              in case next_arrow s of
                   None \<Rightarrow> Inl TypeError
                 | Some n \<Rightarrow>
                     (let d2 = set_disabled n (nextIndex nav < 0 \<or> \<not> isEnough) d1
                      in Inr (s\<lparr>document := d2,
                                emitted := emitted s
                                  @ [Notify (name h @ '':updated'') (prev s) (next_arrow s)
                                       [prevIndex nav, nextIndex nav]]\<rparr>))))"

subsection \<open>The host runs the component\<close>

text \<open>
  The host calls \<open>mount\<close>, \<open>mounted\<close> and \<open>destroy\<close>, and calls a registered listener
  when its event occurs: a click on the target of an \<open>OnClick\<close>, one of the events of
  an \<open>OnEvents\<close>. Between two calls the rest of the page may change the document. A
  call that raises ends the run.
\<close>

fun dispatch :: "splide \<Rightarrow> navigation \<Rightarrow> string \<Rightarrow> listener list \<Rightarrow> arrows \<Rightarrow> error + arrows" where
  "dispatch h nav ev [] s = Inr s"
| "dispatch h nav ev (OnEvents evs # ls) s =
     (if ev \<in> set evs then
        (case updateDisabled h nav s of
           Inl err \<Rightarrow> Inl err
         | Inr s1 \<Rightarrow> dispatch h nav ev ls s1)
      else dispatch h nav ev ls s)"
| "dispatch h nav ev (OnClick t prv # ls) s = dispatch h nav ev ls s"

fun click :: "splide \<Rightarrow> nat \<Rightarrow> listener list \<Rightarrow> arrows \<Rightarrow> arrows" where
  "click h target [] s = s"
| "click h target (OnClick t prv # ls) s =
     (if t = Some target then click h target ls (onClick h prv s) else click h target ls s)"
| "click h target (OnEvents evs # ls) s = click h target ls s"

definition initial :: "dom \<Rightarrow> arrows" where
  "initial d =
     \<lparr>prev = None, next_arrow = None, created = False, arrows_field = None, listeners = [],
      emitted = [], went = [], document = d\<rparr>"

inductive reachable :: "browser \<Rightarrow> splide \<Rightarrow> arrows \<Rightarrow> bool" for b :: browser and h :: splide where
  r_initial: "reachable b h (initial d)"
| r_mount: "reachable b h s \<Longrightarrow> mount b h s = Inr s' \<Longrightarrow> reachable b h s'"
| r_mounted: "reachable b h s \<Longrightarrow> reachable b h (mounted h s)"
| r_destroy: "reachable b h s \<Longrightarrow> destroy s = Inr s' \<Longrightarrow> reachable b h s'"
| r_event: "reachable b h s \<Longrightarrow> dispatch h nav ev (listeners s) s = Inr s' \<Longrightarrow> reachable b h s'"
| r_click: "reachable b h s \<Longrightarrow> reachable b h (click h target (listeners s) s)"
| r_page: "reachable b h s \<Longrightarrow> reachable b h (s\<lparr>document := d\<rparr>)"

section \<open>Vocabulary of the statements\<close>

text \<open>
  A document is well formed when the child lists and the parent references agree, every
  node of a child list is in use, only elements have children, and no child list holds a
  node twice.
\<close>

definition wf_dom :: "dom \<Rightarrow> bool" where
  "wf_dom d \<longleftrightarrow>
     (\<forall>p c. c \<in> set (childNodes d p) \<longrightarrow> c < next_id d \<and> parentNode d c = Some p)
     \<and> (\<forall>c p. parentNode d c = Some p \<longrightarrow>
            p < next_id d \<and> nodeType d p = ELEMENT_NODE \<and> c \<in> set (childNodes d p))
     \<and> (\<forall>p. distinct (childNodes d p))"

text \<open>
  \<open>frame q d d'\<close>: the nodes that were in use in \<open>d\<close> are the same in \<open>d'\<close>, except
  for the child list of \<open>q\<close>.
\<close>

definition frame :: "nat \<Rightarrow> dom \<Rightarrow> dom \<Rightarrow> bool" where
  "frame q d d' \<longleftrightarrow>
     next_id d \<le> next_id d'
     \<and> (\<forall>x < next_id d.
           nodeType d' x = nodeType d x \<and> htmlNamespace d' x = htmlNamespace d x
           \<and> tagName d' x = tagName d x \<and> textData d' x = textData d x \<and> attributes d' x = attributes d x
           \<and> style d' x = style d x \<and> parentNode d' x = parentNode d x
           \<and> (x \<noteq> q \<longrightarrow> childNodes d' x = childNodes d x))"

text \<open>
  The invariant of the component under a host \<open>h\<close>: when a listener is registered, both
  arrows are present, and the host is one for which \<open>mount\<close> ends with both arrows
  present (they are in the markup, or the arrows option is enabled).
\<close>

definition arrows_inv :: "splide \<Rightarrow> arrows \<Rightarrow> bool" where
  "arrows_inv h s \<longleftrightarrow>
     listeners s = []
     \<or> (prev s \<noteq> None \<and> next_arrow s \<noteq> None
        \<and> ((elements_prev h \<noteq> None \<and> elements_next h \<noteq> None)
           \<or> option_truthy (options_arrows h)))"

text \<open>The number of nodes of a parsed tree, the references of the roots, type and tag.\<close>

fun fsize :: "fragment \<Rightarrow> nat" and fsizes :: "fragment list \<Rightarrow> nat" where
  "fsize (FText t) = 1"
| "fsize (FElement tag as cs) = Suc (fsizes cs)"
| "fsize (FForeign tag as cs) = Suc (fsizes cs)"
| "fsizes [] = 0"
| "fsizes (f # fs) = fsize f + fsizes fs"

fun top_ids :: "nat \<Rightarrow> fragment list \<Rightarrow> nat list" where
  "top_ids k [] = []"
| "top_ids k (f # fs) = k # top_ids (k + fsize f) fs"

definition ftype :: "fragment \<Rightarrow> node_type" where
  "ftype f = (case f of FText _ \<Rightarrow> TEXT_NODE | FElement _ _ _ \<Rightarrow> ELEMENT_NODE
                | FForeign _ _ _ \<Rightarrow> ELEMENT_NODE)"

definition ftag :: "fragment \<Rightarrow> string" where
  "ftag f = (case f of FText _ \<Rightarrow> [] | FElement t _ _ \<Rightarrow> t | FForeign t _ _ \<Rightarrow> t)"

section \<open>Example data\<close>

text \<open>
  A page with pre-existing arrows: the root \<open>0\<close> holds the container \<open>1\<close> of the two
  buttons \<open>2\<close> and \<open>3\<close>, and the slider \<open>4\<close>, which holds the track \<open>5\<close>. A second
  page has a root and nothing else.
\<close>

definition example_page :: dom where
  "example_page =
     \<lparr>nodeType = (\<lambda>_. ELEMENT_NODE),
      htmlNamespace = (\<lambda>_. True),
      tagName = (\<lambda>_. ''div'')(2 := ''button'', 3 := ''button''),
      textData = (\<lambda>_. []),
      attributes = (\<lambda>_ _. None),
      style = (\<lambda>_ _. []),
      childNodes = (\<lambda>_. [])(0 := [1, 4], 1 := [2, 3], 4 := [5]),
      parentNode = (\<lambda>_. None)(1 := Some 0, 4 := Some 0, 2 := Some 1, 3 := Some 1, 5 := Some 4),
      next_id = 6\<rparr>"

definition example_empty_page :: dom where
  "example_empty_page =
     \<lparr>nodeType = (\<lambda>_. ELEMENT_NODE),
      htmlNamespace = (\<lambda>_. True),
      tagName = (\<lambda>_. ''div''),
      textData = (\<lambda>_. []),
      attributes = (\<lambda>_ _. None),
      style = (\<lambda>_ _. []),
      childNodes = (\<lambda>_. []),
      parentNode = (\<lambda>_. None),
      next_id = 1\<rparr>"

definition example_host :: splide where
  "example_host =
     \<lparr>options_arrows = ArrowsBool True, options_perMove = Abs_safe_integer 0,
      options_arrowPath = [],
      classes_arrows = ''splide__arrows'', classes_arrow = ''splide__arrow'',
      classes_prev = ''splide__arrow--prev'', classes_next = ''splide__arrow--next'',
      root = 0, name = ''arrows'',
      elements_prev = Some 2, elements_next = Some 3, elements_slider = None,
      XML_NAME_SPACE = ''http://www.w3.org/2000/svg'', PATH = ''m0 0'', SIZE = ''40''\<rparr>"

definition example_navigation :: navigation where
  "example_navigation = \<lparr>prevIndex = - 1, nextIndex = 2, splide_length = 5, options_perPage = 3\<rparr>"

text \<open>The component after \<open>mount\<close> on the example page with the arrows of the markup.\<close>

definition example_mounted :: arrows where
  "example_mounted =
     \<lparr>prev = Some 2, next_arrow = Some 3, created = False,
      arrows_field = Some (Some 2, Some 3),
      listeners = [OnClick (Some 2) True, OnClick (Some 3) False,
                   OnEvents [''mounted'', ''move'', ''updated'']],
      emitted = [], went = [], document = example_page\<rparr>"

text \<open>
  Hosts without arrows in the markup, the second with the arrows asked for in the slider,
  and a browser whose parser gives the HTML parser's result on the strings of the
  examples: the markup of the two arrows, \<^verbatim>\<open><span>hi</span>\<close>, the empty string (no
  node) and strings of whitespace (one text node holding the string). The names of the
  examples are plain.
\<close>

definition example_plain_host :: splide where
  "example_plain_host = example_host\<lparr>elements_prev := None, elements_next := None\<rparr>"

definition example_slider_host :: splide where
  "example_slider_host =
     example_plain_host\<lparr>options_arrows := ArrowsString ''slider'', elements_slider := Some 4\<rparr>"

definition example_button :: "string \<Rightarrow> fragment" where
  "example_button cls =
     FElement ''button'' [(''class'', cls)]
       [FForeign ''svg''
          [(''xmlns'', ''http://www.w3.org/2000/svg''), (''viewBox'', ''0 0 40 40''),
           (''width'', ''40''), (''height'', ''40'')]
          [FForeign ''path'' [(''d'', ''m0 0'')] []]]"

definition example_browser :: browser where
  "example_browser =
     \<lparr>parseHTML =
        (\<lambda>html. if html = arrow_html example_plain_host True
                 then [example_button ''splide__arrow splide__arrow--prev'']
                 else if html = arrow_html example_plain_host False
                 then [example_button ''splide__arrow splide__arrow--next'']
                 else if html = ''<span>hi</span>''
                 then [FElement ''span'' [] [FText ''hi'']]
                 else if html \<noteq> [] \<and> list_all ascii_whitespace html
                 then [FText html]
                 else []),
      querySelector = (\<lambda>d e selector. Inr None),
      element_name = (\<lambda>n. False),
      attribute_name = (\<lambda>n. \<not> list_ex (\<lambda>c. c \<in> set [CHR 0x00, CHR ''/'', CHR ''='', CHR ''>'']) n)\<rparr>"

section \<open>The helpers on a null element\<close>

text \<open>
  C3: every helper that takes an element as its first argument, called with a null
  element, returns null or false or leaves the document as it is, and does not raise:
  \<open>find\<close>, \<open>child\<close>, \<open>remove\<close>, \<open>append\<close>, \<open>before\<close>, \<open>applyStyle\<close>, \<open>addClass\<close>,
  \<open>removeClass\<close>, \<open>hasClass\<close>, \<open>setAttribute\<close>, \<open>getAttribute\<close>, \<open>removeAttribute\<close>,
  whatever the other arguments and the document are.
\<close>

theorem null_element_is_noop:
  "find_dom b None selector d = Inr None
   \<and> child None className d = None
   \<and> remove_dom (Single None) d = Inr d
   \<and> append_dom None chld d = Inr d
   \<and> before None ref d = d
   \<and> applyStyle None styles d = Inr d
   \<and> addClass None classes d = Inr d
   \<and> removeClass None classes d = Inr d
   \<and> hasClass None className d = False
   \<and> setAttribute b None nm v d = Inr d
   \<and> getAttribute None nm d = None
   \<and> removeAttribute None names d = d"
  by (simp add: find_dom_def child_def remove_dom_def append_dom_def before_def applyStyle_def
      addClass_def removeClass_def addOrRemoveClasses_def hasClass_def setAttribute_def
      getAttribute_def removeAttribute_def)

section \<open>updateDisabled\<close>

lemma disabled_set_disabled:
  "disabled (set_disabled e v d) x = (if x = e then v else disabled d x)"
  by (simp add: disabled_def set_disabled_def elm_setAttribute_def elm_removeAttribute_def)

text \<open>
  C1: with both arrows present, \<open>updateDisabled\<close> returns; afterwards the next arrow is
  disabled exactly when the next index is negative or the length does not exceed
  \<open>perPage\<close>, the previous arrow (an element other than the next one) is disabled exactly
  when the previous index is negative or the length does not exceed \<open>perPage\<close>, and one
  \<open>updated\<close> notification has been emitted, carrying both arrows and both indices. With
  the previous index \<open>-1\<close>, the next index \<open>2\<close> and enough content, the previous arrow
  is disabled and the next one is not.
\<close>

theorem updateDisabled_sets_flags:
  assumes "prev s = Some p" and "next_arrow s = Some n"
  shows "\<exists>s'. updateDisabled h nav s = Inr s'
    \<and> disabled (document s') n = (nextIndex nav < 0 \<or> \<not> splide_length nav > options_perPage nav)
    \<and> (p \<noteq> n \<longrightarrow>
         disabled (document s') p = (prevIndex nav < 0 \<or> \<not> splide_length nav > options_perPage nav))
    \<and> emitted s' = emitted s @ [Notify (name h @ '':updated'') (Some p) (Some n) [prevIndex nav, nextIndex nav]]
    \<and> (p \<noteq> n \<and> prevIndex nav = - 1 \<and> nextIndex nav = 2 \<and> splide_length nav > options_perPage nav
         \<longrightarrow> disabled (document s') p \<and> \<not> disabled (document s') n)"
  using assms by (simp add: updateDisabled_def Let_def disabled_set_disabled)

theorem updateDisabled_sets_flags_witness:
  "prev example_mounted = Some 2 \<and> next_arrow example_mounted = Some 3
   \<and> (\<exists>s'. updateDisabled example_host example_navigation example_mounted = Inr s'
         \<and> disabled (document s') 2 \<and> \<not> disabled (document s') 3
         \<and> emitted s' = [Notify ''arrows:updated'' (Some 2) (Some 3) [- 1, 2]])"
  using updateDisabled_sets_flags [of example_mounted 2 3 example_host example_navigation]
  by (auto simp: example_mounted_def example_navigation_def example_host_def)

section \<open>create\<close>

lemma each_setAttribute_valid:
  assumes "\<forall>(k, v) \<in> set attrs. valid_attribute_name b k" and "htmlNamespace d e"
  shows "\<exists>d'. each attrs (\<lambda>v key. setAttribute b (Some e) key v) d = Inr d'
     \<and> attributes d' =
         (attributes d)
         (e := \<lambda>key. case map_of (rev (map (\<lambda>(k, v). (ascii_lowercase k, v)) attrs)) key of
                       None \<Rightarrow> attributes d e key
                     | Some v \<Rightarrow> Some (ToString v))
     \<and> nodeType d' = nodeType d \<and> htmlNamespace d' = htmlNamespace d
     \<and> tagName d' = tagName d \<and> textData d' = textData d \<and> style d' = style d
     \<and> childNodes d' = childNodes d \<and> parentNode d' = parentNode d
     \<and> next_id d' = next_id d"
  using assms
proof (induction attrs arbitrary: d)
  case Nil
  show ?case by (simp add: fun_eq_iff)
next
  case (Cons a attrs)
  obtain k v where a: "a = (k, v)" by (cases a)
  let ?d1 = "elm_setAttribute e (ascii_lowercase k) (ToString v) d"
  have ok: "valid_attribute_name b k" using Cons.prems(1) a by simp
  have step: "each (a # attrs) (\<lambda>v key. setAttribute b (Some e) key v) d
      = each attrs (\<lambda>v key. setAttribute b (Some e) key v) ?d1"
    using ok Cons.prems(2)
    by (simp add: a setAttribute_def element_setAttribute_def attribute_key_def)
  have h1: "htmlNamespace ?d1 e" using Cons.prems(2) by (simp add: elm_setAttribute_def)
  have rest: "\<forall>(k, v) \<in> set attrs. valid_attribute_name b k" using Cons.prems(1) by simp
  obtain d' where r: "each attrs (\<lambda>v key. setAttribute b (Some e) key v) ?d1 = Inr d'"
    and at: "attributes d' =
         (attributes ?d1)
         (e := \<lambda>key. case map_of (rev (map (\<lambda>(k, v). (ascii_lowercase k, v)) attrs)) key of
                       None \<Rightarrow> attributes ?d1 e key
                     | Some v \<Rightarrow> Some (ToString v))"
    and same: "nodeType d' = nodeType ?d1" "htmlNamespace d' = htmlNamespace ?d1"
      "tagName d' = tagName ?d1" "textData d' = textData ?d1" "style d' = style ?d1"
      "childNodes d' = childNodes ?d1" "parentNode d' = parentNode ?d1"
      "next_id d' = next_id ?d1"
    using Cons.IH [OF rest h1] by blast
  have att: "attributes d' =
         (attributes d)
         (e := \<lambda>key. case map_of (rev (map (\<lambda>(k, v). (ascii_lowercase k, v)) (a # attrs))) key of
                       None \<Rightarrow> attributes d e key
                     | Some v \<Rightarrow> Some (ToString v))"
    unfolding at
    by (auto simp: a elm_setAttribute_def map_add_def fun_eq_iff split: option.splits)
  have same': "nodeType d' = nodeType d" "htmlNamespace d' = htmlNamespace d"
    "tagName d' = tagName d" "textData d' = textData d" "style d' = style d"
    "childNodes d' = childNodes d" "parentNode d' = parentNode d" "next_id d' = next_id d"
    using same by (simp_all add: elm_setAttribute_def)
  show ?case
    unfolding step r using att same'
    by (intro exI [of _ d'] conjI) (assumption | rule refl)+
qed

lemma each_setAttribute_invalid:
  assumes "\<exists>(k, v) \<in> set attrs. \<not> valid_attribute_name b k"
  shows "each attrs (\<lambda>v key. setAttribute b (Some e) key v) d = Inl InvalidCharacterError"
  using assms
proof (induction attrs arbitrary: d)
  case Nil
  then show ?case by simp
next
  case (Cons a attrs)
  obtain k v where a: "a = (k, v)" by (cases a)
  show ?case
  proof (cases "valid_attribute_name b k")
    case True
    then have "\<exists>(k, v) \<in> set attrs. \<not> valid_attribute_name b k"
      using Cons.prems a by auto
    then show ?thesis
      using Cons.IH True by (simp add: a setAttribute_def element_setAttribute_def)
  next
    case False
    then show ?thesis by (simp add: a setAttribute_def element_setAttribute_def)
  qed
qed

text \<open>
  C5, as the code has it. When the browser accepts the tag and every key of \<open>attrs\<close> as
  a name, \<open>create\<close> yields a new element of the given tag, lower-cased, on which every
  key/value pair of \<open>attrs\<close> is set as an attribute, whether the value is truthy or
  falsy: the attribute has the lower-cased key as its name and the value converted to a
  string; of two pairs whose keys are the same name the later one stays. No pair is
  skipped. When the browser does not accept the tag or one of the keys, \<open>create\<close>
  raises.
\<close>

theorem create_sets_every_attribute:
  "(valid_element_name b tag \<and> (\<forall>(k, v) \<in> set attrs. valid_attribute_name b k) \<longrightarrow>
      (\<exists>elm d'. create b tag attrs d = Inr (elm, d')
         \<and> elm = next_id d
         \<and> nodeType d' elm = ELEMENT_NODE
         \<and> tagName d' elm = ascii_lowercase tag
         \<and> (\<forall>key. getAttribute (Some elm) key d' =
               map_option ToString
                 (map_of (rev (map (\<lambda>(k, v). (ascii_lowercase k, v)) attrs)) (ascii_lowercase key)))
         \<and> (\<forall>(k, v) \<in> set attrs. getAttribute (Some elm) k d' \<noteq> None)))
   \<and> (\<not> valid_element_name b tag \<or> (\<exists>(k, v) \<in> set attrs. \<not> valid_attribute_name b k) \<longrightarrow>
        create b tag attrs d = Inl InvalidCharacterError)"
proof (intro conjI impI)
  assume A: "valid_element_name b tag \<and> (\<forall>(k, v) \<in> set attrs. valid_attribute_name b k)"
  let ?e = "next_id d"
  obtain d1 where ce: "createElement b tag d = Inr (?e, d1)"
    and d1: "d1 = snd (new_node ELEMENT_NODE True (ascii_lowercase tag) [] d)"
    using A by (simp add: createElement_def new_node_def)
  have h: "htmlNamespace d1 ?e" by (simp add: d1 new_node_def)
  have V: "\<forall>(k, v) \<in> set attrs. valid_attribute_name b k" using A by (rule conjunct2)
  from each_setAttribute_valid [OF V h]
  obtain d' where e: "each attrs (\<lambda>v key. setAttribute b (Some ?e) key v) d1 = Inr d'"
    and at: "attributes d' =
         (attributes d1)
         (?e := \<lambda>key. case map_of (rev (map (\<lambda>(k, v). (ascii_lowercase k, v)) attrs)) key of
                       None \<Rightarrow> attributes d1 ?e key
                     | Some v \<Rightarrow> Some (ToString v))"
    and same: "nodeType d' = nodeType d1" "htmlNamespace d' = htmlNamespace d1"
      "tagName d' = tagName d1"
    by (elim exE conjE) (rule that; assumption)
  have cr: "create b tag attrs d = Inr (?e, d')" by (simp add: create_def ce e)
  have get: "getAttribute (Some ?e) key d' =
      map_option ToString
        (map_of (rev (map (\<lambda>(k, v). (ascii_lowercase k, v)) attrs)) (ascii_lowercase key))" for key
    using h
    by (simp add: getAttribute_def element_getAttribute_def attribute_key_def at same d1
        new_node_def split: option.splits)
  have all: "getAttribute (Some ?e) k d' \<noteq> None" if "(k, v) \<in> set attrs" for k v
  proof -
    have "(ascii_lowercase k, v) \<in> set (rev (map (\<lambda>(k, v). (ascii_lowercase k, v)) attrs))"
      using that by force
    then have "map_of (rev (map (\<lambda>(k, v). (ascii_lowercase k, v)) attrs)) (ascii_lowercase k) \<noteq> None"
      by (metis map_of_eq_None_iff fst_conv image_eqI)
    then show ?thesis by (simp add: get)
  qed
  have ty: "nodeType d' ?e = ELEMENT_NODE" "tagName d' ?e = ascii_lowercase tag"
    by (simp_all add: same d1 new_node_def)
  show "\<exists>elm d'. create b tag attrs d = Inr (elm, d')
         \<and> elm = next_id d
         \<and> nodeType d' elm = ELEMENT_NODE
         \<and> tagName d' elm = ascii_lowercase tag
         \<and> (\<forall>key. getAttribute (Some elm) key d' =
               map_option ToString
                 (map_of (rev (map (\<lambda>(k, v). (ascii_lowercase k, v)) attrs)) (ascii_lowercase key)))
         \<and> (\<forall>(k, v) \<in> set attrs. getAttribute (Some elm) k d' \<noteq> None)"
  proof (intro exI [of _ "next_id d"] exI [of _ d'] conjI allI)
    show "\<forall>(k, v) \<in> set attrs. getAttribute (Some ?e) k d' \<noteq> None" using all by auto
  qed (rule cr refl ty get)+
next
  assume B: "\<not> valid_element_name b tag \<or> (\<exists>(k, v) \<in> set attrs. \<not> valid_attribute_name b k)"
  show "create b tag attrs d = Inl InvalidCharacterError"
  proof (cases "valid_element_name b tag")
    case False
    then show ?thesis by (simp add: create_def createElement_def)
  next
    case True
    then have "\<exists>(k, v) \<in> set attrs. \<not> valid_attribute_name b k" using B by simp
    then show ?thesis
      using True each_setAttribute_invalid [of attrs b]
      by (simp add: create_def createElement_def new_node_def)
  qed
qed

lemma plain_examples:
  "plain_name ''div''" "plain_name ''DIV''" "plain_name ''class''" "plain_name ''id''"
  "plain_name ''ID''" "plain_name ''data-y''" "plain_name ''tabindex''"
  "\<not> plain_name ''a b''"
  by (simp_all add: plain_name_def ascii_alpha_def ascii_digit_def)

lemma lowercase_examples:
  "ascii_lowercase ''div'' = ''div''" "ascii_lowercase ''DIV'' = ''div''"
  "ascii_lowercase ''class'' = ''class''" "ascii_lowercase ''id'' = ''id''"
  "ascii_lowercase ''ID'' = ''id''" "ascii_lowercase ''data-y'' = ''data-y''"
  "ascii_lowercase ''tabindex'' = ''tabindex''" "ascii_lowercase ''disabled'' = ''disabled''"
  by (simp_all add: ascii_lowercase_def)

text \<open>
  The example of C5, \<^verbatim>\<open>create('div', {id: 'x', 'data-y': 'z'})\<close>; names that differ in
  case only, \<^verbatim>\<open>create('DIV', {ID: 'a', id: 'b'})\<close>; and a key that is not a name,
  \<^verbatim>\<open>create('div', {'a b': 'x'})\<close>.
\<close>

theorem create_example:
  "(case create example_browser ''div'' [(''id'', JString ''x''), (''data-y'', JString ''z'')]
          example_page of
      Inr (elm, d') \<Rightarrow>
        tagName d' elm = ''div''
        \<and> getAttribute (Some elm) ''id'' d' = Some ''x''
        \<and> getAttribute (Some elm) ''data-y'' d' = Some ''z''
    | Inl err \<Rightarrow> False)
   \<and> (case create example_browser ''DIV'' [(''ID'', JString ''a''), (''id'', JString ''b'')]
          example_page of
      Inr (elm, d') \<Rightarrow>
        tagName d' elm = ''div''
        \<and> getAttribute (Some elm) ''id'' d' = Some ''b''
        \<and> getAttribute (Some elm) ''ID'' d' = Some ''b''
    | Inl err \<Rightarrow> False)
   \<and> create example_browser ''div'' [(''a b'', JString ''x'')] example_page
       = Inl InvalidCharacterError"
proof -
  have v: "valid_element_name example_browser ''div''" "valid_element_name example_browser ''DIV''"
    "valid_attribute_name example_browser ''id''" "valid_attribute_name example_browser ''ID''"
    "valid_attribute_name example_browser ''data-y''"
    "\<not> valid_attribute_name example_browser ''a b''"
    by (simp_all add: valid_element_name_def valid_attribute_name_def plain_examples
        ascii_whitespace_def)
  note T1 = create_sets_every_attribute
    [where b = example_browser and tag = "''div''"
       and attrs = "[(''id'', JString ''x''), (''data-y'', JString ''z'')]" and d = example_page]
  note T2 = create_sets_every_attribute
    [where b = example_browser and tag = "''DIV''"
       and attrs = "[(''ID'', JString ''a''), (''id'', JString ''b'')]" and d = example_page]
  note T3 = create_sets_every_attribute
    [where b = example_browser and tag = "''div''"
       and attrs = "[(''a b'', JString ''x'')]" and d = example_page]
  have 1: "case create example_browser ''div'' [(''id'', JString ''x''), (''data-y'', JString ''z'')]
          example_page of
      Inr (elm, d') \<Rightarrow>
        tagName d' elm = ''div''
        \<and> getAttribute (Some elm) ''id'' d' = Some ''x''
        \<and> getAttribute (Some elm) ''data-y'' d' = Some ''z''
    | Inl err \<Rightarrow> False"
    using T1 v by (auto simp: lowercase_examples)
  have 2: "case create example_browser ''DIV'' [(''ID'', JString ''a''), (''id'', JString ''b'')]
          example_page of
      Inr (elm, d') \<Rightarrow>
        tagName d' elm = ''div''
        \<and> getAttribute (Some elm) ''id'' d' = Some ''b''
        \<and> getAttribute (Some elm) ''ID'' d' = Some ''b''
    | Inl err \<Rightarrow> False"
    using T2 v by (auto simp: lowercase_examples)
  have 3: "create example_browser ''div'' [(''a b'', JString ''x'')] example_page
       = Inl InvalidCharacterError"
    using T3 v by simp
  show ?thesis using 1 2 3 by (intro conjI)
qed

text \<open>
  C5 as stated fails: the empty string and the number \<open>0\<close> are falsy, and
  \<^verbatim>\<open>create('div', {id: '', tabindex: 0})\<close> sets both attributes.
\<close>

theorem create_falsy_not_skipped:
  "\<not> truthy (JString []) \<and> \<not> truthy (JNumber (Abs_safe_integer 0))
   \<and> (case create example_browser ''div''
              [(''id'', JString []), (''tabindex'', JNumber (Abs_safe_integer 0))] example_page of
        Inr (elm, d') \<Rightarrow>
          getAttribute (Some elm) ''id'' d' = Some []
          \<and> getAttribute (Some elm) ''tabindex'' d' = Some ''0''
      | Inl err \<Rightarrow> False)"
  by (simp add: create_def createElement_def new_node_def getAttribute_def
      element_getAttribute_def attribute_key_def setAttribute_def element_setAttribute_def
      elm_setAttribute_def valid_element_name_def valid_attribute_name_def plain_examples
      lowercase_examples Abs_safe_integer_inverse digits.simps)

section \<open>addClass, removeClass, hasClass\<close>

lemma check_token_None: "check_token t = None \<longleftrightarrow> valid_token t"
  by (simp add: check_token_def valid_token_def)

lemma split_ws_word:
  "\<not> list_ex ascii_whitespace t \<Longrightarrow> split_ws cur (t @ rest) = split_ws (cur @ t) rest"
  by (induction t arbitrary: cur) auto

lemma split_ws_valid:
  "\<not> list_ex ascii_whitespace cur \<Longrightarrow> t \<in> set (split_ws cur s) \<Longrightarrow> valid_token t"
  by (induction cur s rule: split_ws.induct) (auto simp: valid_token_def split: if_splits)

lemma split_ws_serialize:
  "\<forall>t \<in> set ts. valid_token t \<Longrightarrow> split_ws [] (serialize ts) = ts"
proof (induction ts rule: serialize.induct)
  case 1
  show ?case by simp
next
  case (2 t)
  then have "\<not> list_ex ascii_whitespace t" "t \<noteq> []" by (simp_all add: valid_token_def)
  then show ?case using split_ws_word [of t "[]" "[]"] by simp
next
  case (3 t u us)
  then have t: "\<not> list_ex ascii_whitespace t" "t \<noteq> []" by (simp_all add: valid_token_def)
  have "split_ws [] (serialize (t # u # us)) = split_ws t (CHR '' '' # serialize (u # us))"
    using split_ws_word [OF t(1), of "[]"] by simp
  also have "\<dots> = t # split_ws [] (serialize (u # us))"
    using t(2) by (simp add: ascii_whitespace_def)
  finally show ?case using 3 by simp
qed

lemma fold_ordered_distinct:
  "distinct (acc @ ts) \<Longrightarrow>
   fold (\<lambda>t acc. if t \<in> set acc then acc else acc @ [t]) ts acc = acc @ ts"
  by (induction ts arbitrary: acc) auto

lemma ordered_set_distinct_id: "distinct ts \<Longrightarrow> ordered_set ts = ts"
  using fold_ordered_distinct [of "[]" ts] by (simp add: ordered_set_def)

lemma fold_ordered_props:
  "distinct acc \<Longrightarrow>
   distinct (fold (\<lambda>t acc. if t \<in> set acc then acc else acc @ [t]) ts acc)
   \<and> set (fold (\<lambda>t acc. if t \<in> set acc then acc else acc @ [t]) ts acc) = set acc \<union> set ts"
  by (induction ts arbitrary: acc) auto

lemma ordered_set_props: "distinct (ordered_set ts) \<and> set (ordered_set ts) = set ts"
  using fold_ordered_props [of "[]" ts] by (simp add: ordered_set_def)

lemma class_tokens_props:
  "distinct (class_tokens d e) \<and> (\<forall>t \<in> set (class_tokens d e). valid_token t)"
  by (auto simp: class_tokens_def ordered_set_props dest: split_ws_valid [rotated] split: option.splits)

lemma class_tokens_update_class:
  assumes "distinct ts" and "\<forall>t \<in> set ts. valid_token t"
  shows "class_tokens (update_class e ts d) x = (if x = e then ts else class_tokens d x)"
proof (cases "attributes d e ''class'' = None \<and> ts = []")
  case True
  then show ?thesis by (auto simp: update_class_def class_tokens_def)
next
  case False
  then show ?thesis
    using assms
    by (auto simp: update_class_def class_tokens_def elm_setAttribute_def split_ws_serialize
        ordered_set_distinct_id)
qed

lemma classList_add_tokens:
  assumes "valid_token t"
  shows "\<exists>d'. classList_add e t d = Inr d'
     \<and> class_tokens d' e = (if t \<in> set (class_tokens d e) then class_tokens d e
                            else class_tokens d e @ [t])"
proof -
  let ?ts = "if t \<in> set (class_tokens d e) then class_tokens d e else class_tokens d e @ [t]"
  have "distinct ?ts" "\<forall>u \<in> set ?ts. valid_token u"
    using class_tokens_props [of d e] assms by auto
  then have "class_tokens (update_class e ?ts d) e = ?ts"
    by (simp add: class_tokens_update_class)
  then show ?thesis
    using assms by (simp add: classList_add_def check_token_None [symmetric])
qed

lemma classList_remove_tokens:
  assumes "valid_token t"
  shows "\<exists>d'. classList_remove e t d = Inr d'
     \<and> class_tokens d' e = removeAll t (class_tokens d e)"
proof -
  let ?ts = "removeAll t (class_tokens d e)"
  have "distinct ?ts" "\<forall>u \<in> set ?ts. valid_token u"
    using class_tokens_props [of d e] by (auto simp: distinct_removeAll)
  then have "class_tokens (update_class e ?ts d) e = ?ts"
    by (simp add: class_tokens_update_class)
  then show ?thesis
    using assms by (simp add: classList_remove_def check_token_None [symmetric])
qed

lemma valid_a: "valid_token ''a''" and valid_b: "valid_token ''b''"
  by (simp_all add: valid_token_def ascii_whitespace_def)

text \<open>
  C6, as the code has it: on every element, \<^verbatim>\<open>addClass(elm, ['a', 'b'])\<close> returns
  and makes \<^verbatim>\<open>hasClass(elm, 'a')\<close> and \<^verbatim>\<open>hasClass(elm, 'b')\<close> true; then
  \<^verbatim>\<open>removeClass(elm, 'a')\<close> returns and makes \<^verbatim>\<open>hasClass(elm, 'a')\<close> false while
  \<^verbatim>\<open>hasClass(elm, 'b')\<close> stays true. The two names are given as an array: a string is
  one class name and is not split at spaces.
\<close>

theorem addClass_array_then_removeClass:
  "\<exists>d1 d2. addClass (Some e) (Many [''a'', ''b'']) d = Inr d1
     \<and> hasClass (Some e) ''a'' d1 \<and> hasClass (Some e) ''b'' d1
     \<and> removeClass (Some e) (Single ''a'') d1 = Inr d2
     \<and> \<not> hasClass (Some e) ''a'' d2 \<and> hasClass (Some e) ''b'' d2"
proof -
  obtain da where da: "classList_add e ''a'' d = Inr da"
    and ta: "class_tokens da e = (if ''a'' \<in> set (class_tokens d e) then class_tokens d e
                                  else class_tokens d e @ [''a''])"
    using classList_add_tokens [OF valid_a, of e d] by blast
  obtain d1 where d1: "classList_add e ''b'' da = Inr d1"
    and tb: "class_tokens d1 e = (if ''b'' \<in> set (class_tokens da e) then class_tokens da e
                                  else class_tokens da e @ [''b''])"
    using classList_add_tokens [OF valid_b, of e da] by blast
  obtain d2 where d2: "classList_remove e ''a'' d1 = Inr d2"
    and tr: "class_tokens d2 e = removeAll ''a'' (class_tokens d1 e)"
    using classList_remove_tokens [OF valid_a, of e d1] by blast
  have add: "addClass (Some e) (Many [''a'', ''b'']) d = Inr d1"
    by (simp add: addClass_def addOrRemoveClasses_def da d1)
  have rem: "removeClass (Some e) (Single ''a'') d1 = Inr d2"
    by (simp add: removeClass_def addOrRemoveClasses_def d2)
  have a1: "''a'' \<in> set (class_tokens d1 e)" and b1: "''b'' \<in> set (class_tokens d1 e)"
    using ta tb by (auto split: if_splits)
  have a2: "''a'' \<notin> set (class_tokens d2 e)" and b2: "''b'' \<in> set (class_tokens d2 e)"
    using tr b1 by auto
  show ?thesis
    using add rem a1 b1 a2 b2 by (simp add: hasClass_def classList_contains_def)
qed

theorem addClass_array_then_removeClass_witness:
  "\<exists>d1 d2. addClass (Some 2) (Many [''a'', ''b'']) example_page = Inr d1
     \<and> hasClass (Some 2) ''a'' d1 \<and> hasClass (Some 2) ''b'' d1
     \<and> removeClass (Some 2) (Single ''a'') d1 = Inr d2
     \<and> \<not> hasClass (Some 2) ''a'' d2 \<and> hasClass (Some 2) ''b'' d2"
  using addClass_array_then_removeClass [of 2 example_page] .

text \<open>
  C6 as stated fails: \<^verbatim>\<open>addClass(elm, "a b")\<close> hands the one name \<^verbatim>\<open>"a b"\<close> to
  \<^verbatim>\<open>classList.add\<close>, which raises on a name that contains a space.
\<close>

theorem addClass_string_with_space:
  "addClass (Some 2) (Single ''a b'') example_page = Inl InvalidCharacterError
   \<and> \<not> (\<exists>d1. addClass (Some 2) (Single ''a b'') example_page = Inr d1
             \<and> hasClass (Some 2) ''a'' d1 \<and> hasClass (Some 2) ''b'' d1)"
  by (simp add: addClass_def addOrRemoveClasses_def classList_add_def check_token_def
      ascii_whitespace_def)

section \<open>Building and moving nodes\<close>

lemma frame_refl: "frame q d d"
  by (simp add: frame_def)

lemma frame_trans: "frame q d d1 \<Longrightarrow> frame q d1 d2 \<Longrightarrow> frame q d d2"
  by (auto simp: frame_def)

lemma fold_setAttribute_fields:
  "nodeType (fold (\<lambda>(k, v). elm_setAttribute n k v) as d) = nodeType d
   \<and> htmlNamespace (fold (\<lambda>(k, v). elm_setAttribute n k v) as d) = htmlNamespace d
   \<and> tagName (fold (\<lambda>(k, v). elm_setAttribute n k v) as d) = tagName d
   \<and> textData (fold (\<lambda>(k, v). elm_setAttribute n k v) as d) = textData d
   \<and> style (fold (\<lambda>(k, v). elm_setAttribute n k v) as d) = style d
   \<and> childNodes (fold (\<lambda>(k, v). elm_setAttribute n k v) as d) = childNodes d
   \<and> parentNode (fold (\<lambda>(k, v). elm_setAttribute n k v) as d) = parentNode d
   \<and> next_id (fold (\<lambda>(k, v). elm_setAttribute n k v) as d) = next_id d
   \<and> (\<forall>x. x \<noteq> n \<longrightarrow> attributes (fold (\<lambda>(k, v). elm_setAttribute n k v) as d) x = attributes d x)"
  by (induction as arbitrary: d) (auto simp: elm_setAttribute_def)

lemma build_frame:
  "q < next_id d \<Longrightarrow>
     next_id (build q f d) = next_id d + fsize f
     \<and> childNodes (build q f d) q = childNodes d q @ [next_id d]
     \<and> parentNode (build q f d) (next_id d) = Some q
     \<and> nodeType (build q f d) (next_id d) = ftype f
     \<and> tagName (build q f d) (next_id d) = ftag f
     \<and> frame q d (build q f d)"
  "q < next_id d \<Longrightarrow>
     next_id (build_all q fs d) = next_id d + fsizes fs
     \<and> childNodes (build_all q fs d) q = childNodes d q @ top_ids (next_id d) fs
     \<and> frame q d (build_all q fs d)"
proof (induction q f d and q fs d rule: build_build_all.induct)
  case (1 p t d)
  then show ?case
    by (auto simp: createTextNode_def new_node_def appendChild_def detach_def frame_def
        ftype_def ftag_def Let_def)
next
  case (2 p tag as cs d)
  let ?n = "next_id d"
  obtain d1 where ce: "new_node ELEMENT_NODE True tag [] d = (?n, d1)"
    by (simp add: new_node_def)
  have d1: "d1 = snd (new_node ELEMENT_NODE True tag [] d)" using ce by simp
  let ?da = "appendChild p ?n (fold (\<lambda>(k, v). elm_setAttribute ?n k v) as d1)"
  have b: "build p (FElement tag as cs) d = build_all ?n cs ?da"
    by (simp add: ce)
  have da_next: "next_id ?da = Suc ?n"
    by (simp add: d1 appendChild_def detach_def Let_def fold_setAttribute_fields removeChild_def
        new_node_def split: option.splits)
  have da_frame: "frame p d ?da"
    using 2(2)
    by (auto simp: d1 frame_def appendChild_def detach_def Let_def fold_setAttribute_fields
        new_node_def)
  have da_p: "childNodes ?da p = childNodes d p @ [?n]"
    using 2(2)
    by (auto simp: d1 appendChild_def detach_def Let_def fold_setAttribute_fields
        new_node_def)
  have da_n: "parentNode ?da ?n = Some p" "nodeType ?da ?n = ELEMENT_NODE" "tagName ?da ?n = tag"
    using 2(2)
    by (auto simp: d1 appendChild_def detach_def Let_def fold_setAttribute_fields
        new_node_def)
  have ih: "next_id (build_all ?n cs ?da) = next_id ?da + fsizes cs
     \<and> childNodes (build_all ?n cs ?da) ?n = childNodes ?da ?n @ top_ids (next_id ?da) cs
     \<and> frame ?n ?da (build_all ?n cs ?da)"
    using 2(1) [OF ce [symmetric]] da_next by simp
  have fr: "frame ?n ?da (build_all ?n cs ?da)" using ih by simp
  have "frame p d (build_all ?n cs ?da)"
    using da_frame fr 2(2) da_next by (auto simp: frame_def)
  moreover have "childNodes (build_all ?n cs ?da) p = childNodes d p @ [?n]"
    using fr da_p 2(2) da_next by (auto simp: frame_def)
  moreover have "parentNode (build_all ?n cs ?da) ?n = Some p"
    "nodeType (build_all ?n cs ?da) ?n = ELEMENT_NODE" "tagName (build_all ?n cs ?da) ?n = tag"
    using fr da_n da_next by (auto simp: frame_def)
  ultimately show ?case
    unfolding b using ih da_next by (simp add: ftype_def ftag_def)
next
  case (3 p tag as cs d)
  let ?n = "next_id d"
  obtain d1 where ce: "new_node ELEMENT_NODE False tag [] d = (?n, d1)"
    by (simp add: new_node_def)
  have d1: "d1 = snd (new_node ELEMENT_NODE False tag [] d)" using ce by simp
  let ?da = "appendChild p ?n (fold (\<lambda>(k, v). elm_setAttribute ?n k v) as d1)"
  have b: "build p (FForeign tag as cs) d = build_all ?n cs ?da"
    by (simp add: ce)
  have da_next: "next_id ?da = Suc ?n"
    by (simp add: d1 appendChild_def detach_def Let_def fold_setAttribute_fields removeChild_def
        new_node_def split: option.splits)
  have da_frame: "frame p d ?da"
    using 3(2)
    by (auto simp: d1 frame_def appendChild_def detach_def Let_def fold_setAttribute_fields
        new_node_def)
  have da_p: "childNodes ?da p = childNodes d p @ [?n]"
    using 3(2)
    by (auto simp: d1 appendChild_def detach_def Let_def fold_setAttribute_fields
        new_node_def)
  have da_n: "parentNode ?da ?n = Some p" "nodeType ?da ?n = ELEMENT_NODE" "tagName ?da ?n = tag"
    using 3(2)
    by (auto simp: d1 appendChild_def detach_def Let_def fold_setAttribute_fields
        new_node_def)
  have ih: "next_id (build_all ?n cs ?da) = next_id ?da + fsizes cs
     \<and> childNodes (build_all ?n cs ?da) ?n = childNodes ?da ?n @ top_ids (next_id ?da) cs
     \<and> frame ?n ?da (build_all ?n cs ?da)"
    using 3(1) [OF ce [symmetric]] da_next by simp
  have fr: "frame ?n ?da (build_all ?n cs ?da)" using ih by simp
  have "frame p d (build_all ?n cs ?da)"
    using da_frame fr 3(2) da_next by (auto simp: frame_def)
  moreover have "childNodes (build_all ?n cs ?da) p = childNodes d p @ [?n]"
    using fr da_p 3(2) da_next by (auto simp: frame_def)
  moreover have "parentNode (build_all ?n cs ?da) ?n = Some p"
    "nodeType (build_all ?n cs ?da) ?n = ELEMENT_NODE" "tagName (build_all ?n cs ?da) ?n = tag"
    using fr da_n da_next by (auto simp: frame_def)
  ultimately show ?case
    unfolding b using ih da_next by (simp add: ftype_def ftag_def)
next
  case (4 p d)
  show ?case by (simp add: frame_refl)
next
  case (5 p f fs d)
  let ?d1 = "build p f d"
  have h1: "next_id ?d1 = next_id d + fsize f" "childNodes ?d1 p = childNodes d p @ [next_id d]"
    "frame p d ?d1"
    using 5(1) [OF 5(3)] by simp_all
  have p1: "p < next_id ?d1" using h1(1) 5(3) by simp
  have h2: "next_id (build_all p fs ?d1) = next_id ?d1 + fsizes fs"
    "childNodes (build_all p fs ?d1) p = childNodes ?d1 p @ top_ids (next_id ?d1) fs"
    "frame p ?d1 (build_all p fs ?d1)"
    using 5(2) [OF p1] by simp_all
  show ?case
    using h1 h2 frame_trans [OF h1(3) h2(3)] by (simp add: add.assoc)
qed


lemma fsize_pos: "0 < fsize f"
  by (cases f) simp_all

lemma removeChild_fields:
  "parentNode (removeChild p c d) = (parentNode d)(c := None)"
  "childNodes (removeChild p c d) = (childNodes d)(p := removeAll c (childNodes d p))"
  "nodeType (removeChild p c d) = nodeType d"
  "tagName (removeChild p c d) = tagName d"
  "textData (removeChild p c d) = textData d"
  "attributes (removeChild p c d) = attributes d"
  "style (removeChild p c d) = style d"
  "next_id (removeChild p c d) = next_id d"
  "htmlNamespace (removeChild p c d) = htmlNamespace d"
  by (simp_all add: removeChild_def Let_def)

lemma detach_fields:
  "parentNode (detach c d) = (parentNode d)(c := None)"
  "childNodes (detach c d) =
     (case parentNode d c of
        None \<Rightarrow> childNodes d
      | Some q \<Rightarrow> (childNodes d)(q := removeAll c (childNodes d q)))"
  "nodeType (detach c d) = nodeType d"
  "tagName (detach c d) = tagName d"
  "textData (detach c d) = textData d"
  "attributes (detach c d) = attributes d"
  "style (detach c d) = style d"
  "next_id (detach c d) = next_id d"
  "htmlNamespace (detach c d) = htmlNamespace d"
  by (auto simp: detach_def removeChild_fields split: option.splits)

lemma appendChild_fields:
  "parentNode (appendChild p c d) = (parentNode d)(c := Some p)"
  "childNodes (appendChild p c d) = (childNodes (detach c d))(p := childNodes (detach c d) p @ [c])"
  "nodeType (appendChild p c d) = nodeType d"
  "tagName (appendChild p c d) = tagName d"
  "textData (appendChild p c d) = textData d"
  "attributes (appendChild p c d) = attributes d"
  "style (appendChild p c d) = style d"
  "next_id (appendChild p c d) = next_id d"
  "htmlNamespace (appendChild p c d) = htmlNamespace d"
  by (simp_all add: appendChild_def Let_def detach_fields)

lemma insertBefore_fields:
  "c \<noteq> r \<Longrightarrow> parentNode (insertBefore p c r d) = (parentNode d)(c := Some p)"
  "c \<noteq> r \<Longrightarrow> childNodes (insertBefore p c r d) =
     (childNodes (detach c d))(p := insert_before c r (childNodes (detach c d) p))"
  "nodeType (insertBefore p c r d) = nodeType d"
  "tagName (insertBefore p c r d) = tagName d"
  "textData (insertBefore p c r d) = textData d"
  "attributes (insertBefore p c r d) = attributes d"
  "style (insertBefore p c r d) = style d"
  "next_id (insertBefore p c r d) = next_id d"
  "htmlNamespace (insertBefore p c r d) = htmlNamespace d"
  by (simp_all add: insertBefore_def Let_def detach_fields)

lemma create_div:
  "create b ''div'' [] d = Inr (next_id d, snd (new_node ELEMENT_NODE True ''div'' [] d))"
  by (simp add: create_def createElement_def new_node_def valid_element_name_def
      plain_examples lowercase_examples)

lemma domify_result:
  assumes "parseHTML b html = f # fs"
  shows "\<exists>d'. domify b html d = Inr (Some (Suc (next_id d)), d')
     \<and> next_id d' = Suc (next_id d) + fsizes (f # fs)
     \<and> parentNode d' (Suc (next_id d)) = Some (next_id d)
     \<and> nodeType d' (Suc (next_id d)) = ftype f
     \<and> tagName d' (Suc (next_id d)) = ftag f
     \<and> frame (next_id d) d d'"
proof -
  let ?k = "next_id d"
  obtain d1 where cr: "create b ''div'' [] d = Inr (?k, d1)"
    and d1: "d1 = snd (new_node ELEMENT_NODE True ''div'' [] d)"
    by (simp add: create_div)
  have d1_next: "next_id d1 = Suc ?k" and d1_kids: "childNodes d1 ?k = []"
    and d1_frame: "frame ?k d d1"
    by (simp_all add: d1 new_node_def frame_def)
  let ?d2 = "build ?k f d1"
  let ?d3 = "build_all ?k fs ?d2"
  have inner: "set_innerHTML b ?k html d1 = ?d3"
    by (simp add: set_innerHTML_def assms d1_kids)
  have k1: "?k < next_id d1" using d1_next by simp
  have h2: "next_id ?d2 = next_id d1 + fsize f"
    "childNodes ?d2 ?k = childNodes d1 ?k @ [next_id d1]"
    "parentNode ?d2 (next_id d1) = Some ?k" "nodeType ?d2 (next_id d1) = ftype f"
    "tagName ?d2 (next_id d1) = ftag f" "frame ?k d1 ?d2"
    using build_frame(1) [OF k1, of f] by simp_all
  have k2: "?k < next_id ?d2" using h2(1) d1_next by simp
  have h3: "next_id ?d3 = next_id ?d2 + fsizes fs"
    "childNodes ?d3 ?k = childNodes ?d2 ?k @ top_ids (next_id ?d2) fs"
    "frame ?k ?d2 ?d3"
    using build_frame(2) [OF k2, of fs] by simp_all
  have first: "firstChild ?d3 ?k = Some (Suc ?k)"
    by (simp add: firstChild_def h3(2) h2(2) d1_kids d1_next)
  have new: "parentNode ?d3 (Suc ?k) = Some ?k" "nodeType ?d3 (Suc ?k) = ftype f"
    "tagName ?d3 (Suc ?k) = ftag f"
    using h3(3) h2(1,3,4,5) d1_next fsize_pos [of f] by (auto simp: frame_def)
  have "frame ?k d ?d3"
    using frame_trans [OF d1_frame frame_trans [OF h2(6) h3(3)]] .
  then show ?thesis
    using first new h3(1) h2(1) d1_next
    by (simp add: domify_def cr inner Let_def add.assoc)
qed


lemma wf_dom_child:
  assumes "wf_dom d" and "c \<in> set (childNodes d p)"
  shows "c < next_id d" and "parentNode d c = Some p" and "nodeType d p = ELEMENT_NODE"
    and "p < next_id d"
proof -
  show c: "c < next_id d" and p: "parentNode d c = Some p"
    using assms unfolding wf_dom_def by blast+
  show "nodeType d p = ELEMENT_NODE" and "p < next_id d"
    using assms(1) p unfolding wf_dom_def by blast+
qed

lemma filter_takeWhile_first:
  "filter P xs = r # rest \<Longrightarrow> filter P (takeWhile (\<lambda>x. x \<noteq> r) xs) = []"
  by (induction xs) (auto split: if_splits)

lemma firstElementChild_mem:
  "firstElementChild d p = Some r \<Longrightarrow> r \<in> set (childNodes d p) \<and> nodeType d r = ELEMENT_NODE"
proof -
  assume "firstElementChild d p = Some r"
  then obtain rest where "children d p = r # rest"
    by (auto simp: firstElementChild_def split: list.splits)
  then have "r \<in> set (filter (\<lambda>c. nodeType d c = ELEMENT_NODE) (childNodes d p))"
    by (simp add: children_def)
  then show ?thesis by simp
qed

lemma firstElementChild_cong:
  assumes "childNodes d' p = childNodes d p"
    and "\<forall>c \<in> set (childNodes d p). nodeType d' c = nodeType d c"
  shows "firstElementChild d' p = firstElementChild d p"
proof -
  have "filter (\<lambda>c. nodeType d' c = ELEMENT_NODE) (childNodes d p)
      = filter (\<lambda>c. nodeType d c = ELEMENT_NODE) (childNodes d p)"
    using assms(2) by (intro filter_cong) auto
  then show ?thesis by (simp add: firstElementChild_def children_def assms(1))
qed

lemma firstElementChild_insert_before:
  assumes "firstElementChild d p = Some r"
    and "childNodes d' p = insert_before w r (childNodes d p)"
    and "\<forall>c \<in> set (childNodes d p). nodeType d' c = nodeType d c"
    and "nodeType d' w = ELEMENT_NODE"
  shows "firstElementChild d' p = Some w"
proof -
  let ?E = "\<lambda>c. nodeType d c = ELEMENT_NODE"
  let ?E' = "\<lambda>c. nodeType d' c = ELEMENT_NODE"
  obtain rest where r: "filter ?E (childNodes d p) = r # rest"
    using assms(1) by (auto simp: firstElementChild_def children_def split: list.splits)
  have same: "filter ?E' xs = filter ?E xs" if "set xs \<subseteq> set (childNodes d p)" for xs
    using that assms(3) by (intro filter_cong) auto
  have sub: "set (takeWhile (\<lambda>x. x \<noteq> r) (childNodes d p)) \<subseteq> set (childNodes d p)"
    by (auto dest: set_takeWhileD)
  have "filter ?E' (takeWhile (\<lambda>x. x \<noteq> r) (childNodes d p)) = []"
    using filter_takeWhile_first [OF r] same [OF sub] by simp
  then show ?thesis
    by (simp add: firstElementChild_def children_def assms(2,4) insert_before_def)
qed


lemma mount_fabricates:
  assumes missing: "elements_prev h = None \<or> elements_next h = None"
    and enabled: "option_truthy (options_arrows h)"
    and wf: "wf_dom (document s)"
    and parent_ok: "arrows_parent h < next_id (document s)"
    and parse_prev: "parseHTML b (arrow_html h True) = f1 # fs1"
    and parse_next: "parseHTML b (arrow_html h False) = f2 # fs2"
  shows "\<exists>s' w p n. mount b h s = Inr s'
      \<and> created s' \<and> prev s' = Some p \<and> next_arrow s' = Some n
      \<and> arrows_field s' = Some (Some p, Some n)
      \<and> listeners s' = listeners s @ [OnClick (Some p) True, OnClick (Some n) False,
                                        OnEvents [''mounted'', ''move'', ''updated'']]
      \<and> emitted s' = emitted s \<and> went s' = went s
      \<and> next_id (document s) \<le> p \<and> next_id (document s) \<le> n \<and> next_id (document s) \<le> w
      \<and> p \<noteq> n \<and> w \<noteq> p \<and> w \<noteq> n
      \<and> nodeType (document s') p = ftype f1 \<and> tagName (document s') p = ftag f1
      \<and> nodeType (document s') n = ftype f2 \<and> tagName (document s') n = ftag f2
      \<and> nodeType (document s') w = ELEMENT_NODE \<and> tagName (document s') w = ''div''
      \<and> attributes (document s') w ''class'' = Some (classes_arrows h)
      \<and> childNodes (document s') w = [p, n]
      \<and> parentNode (document s') p = Some w \<and> parentNode (document s') n = Some w
      \<and> frame (arrows_parent h) (document s) (document s')
      \<and> (case firstElementChild (document s) (arrows_parent h) of
            Some r \<Rightarrow>
              parentNode (document s') w = Some (arrows_parent h)
              \<and> childNodes (document s') (arrows_parent h)
                  = insert_before w r (childNodes (document s) (arrows_parent h))
              \<and> firstElementChild (document s') (arrows_parent h) = Some w
          | None \<Rightarrow>
              parentNode (document s') w = None
              \<and> childNodes (document s') (arrows_parent h)
                  = childNodes (document s) (arrows_parent h))"
proof -
  let ?d0 = "document s"
  let ?k = "next_id ?d0"
  let ?P = "arrows_parent h"
  let ?p = "Suc ?k"
  obtain dA where A: "createArrow b h True ?d0 = Inr (Some ?p, dA)"
    and A_next: "next_id dA = Suc ?k + fsizes (f1 # fs1)"
    and A_par: "parentNode dA ?p = Some ?k"
    and A_ty: "nodeType dA ?p = ftype f1" and A_tag: "tagName dA ?p = ftag f1"
    and A_frame: "frame ?k ?d0 dA"
    using domify_result [OF parse_prev, of ?d0] by (auto simp: createArrow_def)
  let ?kA = "next_id dA"
  let ?n = "Suc ?kA"
  obtain dB where B: "createArrow b h False dA = Inr (Some ?n, dB)"
    and B_next: "next_id dB = Suc ?kA + fsizes (f2 # fs2)"
    and B_par: "parentNode dB ?n = Some ?kA"
    and B_ty: "nodeType dB ?n = ftype f2" and B_tag: "tagName dB ?n = ftag f2"
    and B_frame: "frame ?kA dA dB"
    using domify_result [OF parse_next, of dA] by (auto simp: createArrow_def)
  let ?w = "next_id dB"
  have ord: "?p < ?kA" "?n < ?w" "?P < ?k"
    using A_next B_next fsize_pos [of f1] fsize_pos [of f2] parent_ok by simp_all
  have ord2: "?k < ?kA" "?k < ?w" "?kA < ?w" "?p < ?w"
    using A_next B_next by simp_all
  have B_p: "parentNode dB ?p = Some ?k" "nodeType dB ?p = ftype f1" "tagName dB ?p = ftag f1"
    using B_frame ord A_par A_ty A_tag by (auto simp: frame_def)
  have old: "\<forall>x < ?k. nodeType dB x = nodeType ?d0 x \<and> htmlNamespace dB x = htmlNamespace ?d0 x
      \<and> tagName dB x = tagName ?d0 x
      \<and> textData dB x = textData ?d0 x \<and> attributes dB x = attributes ?d0 x
      \<and> style dB x = style ?d0 x \<and> parentNode dB x = parentNode ?d0 x
      \<and> childNodes dB x = childNodes ?d0 x"
    using A_frame B_frame ord by (auto simp: frame_def)
  define dC where "dC = elm_setAttribute ?w ''class'' (classes_arrows h)
      (snd (new_node ELEMENT_NODE True ''div'' [] dB))"
  have C: "create b ''div'' [(''class'', JString (classes_arrows h))] dB = Inr (?w, dC)"
    by (simp add: dC_def create_def createElement_def new_node_def setAttribute_def
        element_setAttribute_def attribute_key_def valid_element_name_def
        valid_attribute_name_def plain_examples lowercase_examples)
  have C_fields: "nodeType dC = (nodeType dB)(?w := ELEMENT_NODE)"
    "tagName dC = (tagName dB)(?w := ''div'')"
    "textData dC = (textData dB)(?w := [])"
    "attributes dC = (attributes dB)(?w := [''class'' \<mapsto> classes_arrows h])"
    "style dC = (style dB)(?w := (\<lambda>_. []))"
    "childNodes dC = (childNodes dB)(?w := [])"
    "parentNode dC = (parentNode dB)(?w := None)"
    "next_id dC = Suc ?w"
    "htmlNamespace dC = (htmlNamespace dB)(?w := True)"
    by (simp_all add: dC_def new_node_def elm_setAttribute_def)
  define dE where "dE = appendChild ?w ?n (appendChild ?w ?p dC)"
  have E_par: "parentNode dE = (parentNode dB)(?w := None, ?p := Some ?w, ?n := Some ?w)"
    by (simp add: dE_def appendChild_fields C_fields)
  have E_same: "nodeType dE = nodeType dC" "tagName dE = tagName dC" "textData dE = textData dC"
    "attributes dE = attributes dC" "style dE = style dC" "next_id dE = next_id dC"
    "htmlNamespace dE = htmlNamespace dC"
    by (simp_all add: dE_def appendChild_fields)
  have E_kids_w: "childNodes dE ?w = [?p, ?n]"
    using ord B_p(1) B_par
    by (simp add: dE_def appendChild_fields detach_fields C_fields)
  have E_kids_old: "childNodes dE x = childNodes ?d0 x" if "x < ?k" for x
    using that ord B_p(1) B_par old
    by (simp add: dE_def appendChild_fields detach_fields C_fields)
  have E_frame: "frame ?w ?d0 dE"
    using old ord E_kids_old
    by (auto simp: frame_def E_par E_same C_fields)
  have kids_old: "c < ?k" if "c \<in> set (childNodes ?d0 ?P)" for c
    using wf that unfolding wf_dom_def by blast
  have ty_old: "nodeType dE x = nodeType ?d0 x" if "x < ?k" for x
    using old that ord2 by (simp add: E_same C_fields)
  have E_first: "firstElementChild dE ?P = firstElementChild ?d0 ?P"
  proof (rule firstElementChild_cong)
    show "childNodes dE ?P = childNodes ?d0 ?P" using E_kids_old [OF ord(3)] .
    show "\<forall>c \<in> set (childNodes ?d0 ?P). nodeType dE c = nodeType ?d0 c"
      using kids_old ty_old by blast
  qed
  define dF where "dF = before (Some ?w) (firstElementChild dE ?P) dE"
  define s' where "s' = (bind_listeners (s\<lparr>prev := Some ?p, next_arrow := Some ?n, created := True,
      document := dF\<rparr>))\<lparr>arrows_field := Some (Some ?p, Some ?n)\<rparr>"
  have m: "mount b h s = Inr s'"
    using missing enabled
    by (auto simp: mount_def Let_def A B appendArrows_def C append_dom_def dE_def dF_def s'_def
        bind_listeners_def)
  have F_doc: "document s' = dF" by (simp add: s'_def bind_listeners_def)
  have F_case: "frame ?P ?d0 dF
      \<and> nodeType dF = nodeType dE \<and> tagName dF = tagName dE \<and> attributes dF = attributes dE
      \<and> childNodes dF ?w = [?p, ?n]
      \<and> parentNode dF ?p = Some ?w \<and> parentNode dF ?n = Some ?w
      \<and> (case firstElementChild ?d0 ?P of
            Some r \<Rightarrow>
              parentNode dF ?w = Some ?P
              \<and> childNodes dF ?P = insert_before ?w r (childNodes ?d0 ?P)
              \<and> firstElementChild dF ?P = Some ?w
          | None \<Rightarrow>
              parentNode dF ?w = None \<and> childNodes dF ?P = childNodes ?d0 ?P)"
  proof (cases "firstElementChild ?d0 ?P")
    case None
    then have "dF = dE" by (simp add: dF_def E_first before_def)
    then show ?thesis
      using None E_frame E_kids_w E_kids_old ord
      by (auto simp: frame_def E_par)
  next
    case (Some r)
    have r: "r \<in> set (childNodes ?d0 ?P)" "nodeType ?d0 r = ELEMENT_NODE"
      using firstElementChild_mem [OF Some] by simp_all
    then have r_old: "r < ?k" "parentNode ?d0 r = Some ?P" "nodeType ?d0 ?P = ELEMENT_NODE"
      using wf_dom_child [OF wf] by simp_all
    have pe: "parentElement dE r = Some ?P"
      using r_old ord old by (simp add: parentElement_def E_par E_same C_fields)
    have wr: "?w \<noteq> r" using r_old ord A_next B_next by simp
    have dF: "dF = insertBefore ?P ?w r dE"
      by (simp add: dF_def E_first Some before_def pe)
    have F_par: "parentNode dF = (parentNode dE)(?w := Some ?P)"
      and F_kids: "childNodes dF = (childNodes dE)(?P := insert_before ?w r (childNodes dE ?P))"
      using wr ord ord2 by (simp_all add: dF insertBefore_fields detach_fields E_par)
    have F_same: "nodeType dF = nodeType dE" "tagName dF = tagName dE"
      "attributes dF = attributes dE" "next_id dF = next_id dE"
      "textData dF = textData dE" "style dF = style dE" "htmlNamespace dF = htmlNamespace dE"
      by (simp_all add: dF insertBefore_fields)
    have F_P: "childNodes dF ?P = insert_before ?w r (childNodes ?d0 ?P)"
      using E_kids_old ord by (simp add: F_kids)
    have "firstElementChild dF ?P = Some ?w"
    proof (rule firstElementChild_insert_before [OF Some F_P])
      show "\<forall>c \<in> set (childNodes ?d0 ?P). nodeType dF c = nodeType ?d0 c"
        using kids_old ty_old by (simp add: F_same)
      show "nodeType dF ?w = ELEMENT_NODE" by (simp add: F_same E_same C_fields)
    qed
    moreover have "frame ?P ?d0 dF"
      using E_frame ord A_next B_next
      by (auto simp: frame_def F_same F_par F_kids)
    ultimately show ?thesis
      using Some F_P E_kids_w ord A_next B_next
      by (auto simp: F_same F_par F_kids E_par)
  qed
  have types: "nodeType dE ?p = ftype f1" "tagName dE ?p = ftag f1"
    "nodeType dE ?n = ftype f2" "tagName dE ?n = ftag f2"
    "nodeType dE ?w = ELEMENT_NODE" "tagName dE ?w = ''div''"
    "attributes dE ?w ''class'' = Some (classes_arrows h)"
    using ord B_p B_ty B_tag by (simp_all add: E_same C_fields)
  have fresh: "?k \<le> ?p" "?k \<le> ?n" "?k \<le> ?w" "?p \<noteq> ?n" "?w \<noteq> ?p" "?w \<noteq> ?n"
    using ord A_next B_next by simp_all
  have st: "created s'" "prev s' = Some ?p" "next_arrow s' = Some ?n"
    "arrows_field s' = Some (Some ?p, Some ?n)"
    "listeners s' = listeners s @ [OnClick (Some ?p) True, OnClick (Some ?n) False,
                                    OnEvents [''mounted'', ''move'', ''updated'']]"
    "emitted s' = emitted s" "went s' = went s"
    by (simp_all add: s'_def bind_listeners_def)
  show ?thesis
    apply (rule exI [of _ s'], rule exI [of _ ?w], rule exI [of _ ?p], rule exI [of _ ?n])
    using m st fresh types F_case by (simp add: F_doc split: option.splits)
qed

section \<open>mount and destroy\<close>

lemma clear_disabled_fields:
  "parentNode (fold (\<lambda>elm. removeAttribute elm (Single ''disabled'')) elms d) = parentNode d"
  "childNodes (fold (\<lambda>elm. removeAttribute elm (Single ''disabled'')) elms d) = childNodes d"
  "nodeType (fold (\<lambda>elm. removeAttribute elm (Single ''disabled'')) elms d) = nodeType d"
  "tagName (fold (\<lambda>elm. removeAttribute elm (Single ''disabled'')) elms d) = tagName d"
  "textData (fold (\<lambda>elm. removeAttribute elm (Single ''disabled'')) elms d) = textData d"
  "style (fold (\<lambda>elm. removeAttribute elm (Single ''disabled'')) elms d) = style d"
  "next_id (fold (\<lambda>elm. removeAttribute elm (Single ''disabled'')) elms d) = next_id d"
  "htmlNamespace (fold (\<lambda>elm. removeAttribute elm (Single ''disabled'')) elms d) = htmlNamespace d"
  "attributes (fold (\<lambda>elm. removeAttribute elm (Single ''disabled'')) elms d) x a =
     (if Some x \<in> set elms \<and> a = ''disabled'' then None else attributes d x a)"
  by (induction elms arbitrary: d)
    (auto simp: removeAttribute_def element_removeAttribute_def attribute_key_def
       lowercase_examples elm_removeAttribute_def split: option.splits)

lemma clear_disabled_parentElement:
  "parentElement (fold (\<lambda>elm. removeAttribute elm (Single ''disabled'')) elms d) x
     = parentElement d x"
  unfolding parentElement_def clear_disabled_fields ..

lemma destroy_not_created:
  assumes "\<not> created s"
  shows "\<exists>s'. destroy s = Inr s'
     \<and> prev s' = prev s \<and> next_arrow s' = next_arrow s \<and> created s' = created s
     \<and> listeners s' = listeners s
     \<and> parentNode (document s') = parentNode (document s)
     \<and> childNodes (document s') = childNodes (document s)
     \<and> nodeType (document s') = nodeType (document s)
     \<and> tagName (document s') = tagName (document s)
     \<and> next_id (document s') = next_id (document s)
     \<and> (\<forall>x a. attributes (document s') x a =
           (if (Some x = prev s \<or> Some x = next_arrow s) \<and> a = ''disabled'' then None
            else attributes (document s) x a))"
  using assms by (auto simp: destroy_def Let_def clear_disabled_fields simp del: fold.simps)

lemma destroy_created:
  assumes "created s" and "prev s = Some p"
    and "parentNode (document s) p = Some w" and "nodeType (document s) w = ELEMENT_NODE"
  shows "destroy s =
     (case parentElement (document s) w of
        None \<Rightarrow> Inl TypeError
      | Some q \<Rightarrow>
          Inr (s\<lparr>document :=
                 removeChild q w
                   (fold (\<lambda>elm. removeAttribute elm (Single ''disabled'')) [prev s, next_arrow s]
                      (document s))\<rparr>))"
proof -
  let ?d1 = "fold (\<lambda>elm. removeAttribute elm (Single ''disabled'')) [Some p, next_arrow s] (document s)"
  have 1: "parentElement ?d1 p = Some w"
    unfolding clear_disabled_parentElement using assms(3,4) by (simp add: parentElement_def)
  have 2: "parentElement ?d1 w = parentElement (document s) w"
    by (rule clear_disabled_parentElement)
  show ?thesis
    using assms(1,2) 1 2
    by (simp add: destroy_def Let_def remove_dom_def del: fold.simps split: option.splits)
qed

lemma removeAll_insert_before:
  "w \<notin> set xs \<Longrightarrow> removeAll w (insert_before w r xs) = xs"
proof -
  assume w: "w \<notin> set xs"
  then have "w \<notin> set (takeWhile (\<lambda>x. x \<noteq> r) xs)" "w \<notin> set (dropWhile (\<lambda>x. x \<noteq> r) xs)"
    by (auto dest: set_takeWhileD set_dropWhileD)
  then show ?thesis
    by (simp add: insert_before_def)
qed

lemma wf_example_page: "wf_dom example_page"
  by (auto simp: wf_dom_def example_page_def split: if_splits)

lemma wf_example_empty_page: "wf_dom example_empty_page"
  by (simp add: wf_dom_def example_empty_page_def)

lemma example_parse:
  "parseHTML example_browser (arrow_html example_plain_host True)
     = [example_button ''splide__arrow splide__arrow--prev'']"
  "parseHTML example_browser (arrow_html example_plain_host False)
     = [example_button ''splide__arrow splide__arrow--next'']"
  "arrow_html example_slider_host prv = arrow_html example_plain_host prv"
  by (simp_all add: example_browser_def arrow_html_def example_plain_host_def example_host_def
      example_slider_host_def)


lemma mount_found:
  assumes "elements_prev h = Some p" and "elements_next h = Some n"
  shows "mount b h s =
     Inr ((bind_listeners (s\<lparr>prev := Some p, next_arrow := Some n\<rparr>))
            \<lparr>arrows_field := Some (Some p, Some n)\<rparr>)"
  using assms by (simp add: mount_def Let_def bind_listeners_def)

lemma fabricate_then_destroy:
  assumes missing: "elements_prev h = None \<or> elements_next h = None"
    and enabled: "option_truthy (options_arrows h)"
    and wf: "wf_dom (document s)"
    and first: "firstElementChild (document s) (arrows_parent h) = Some r"
    and parse_prev: "parseHTML b (arrow_html h True) = f1 # fs1"
    and parse_next: "parseHTML b (arrow_html h False) = f2 # fs2"
  shows "\<exists>s' s'' w p n.
          mount b h s = Inr s' \<and> created s' \<and> prev s' = Some p \<and> next_arrow s' = Some n
          \<and> next_id (document s) \<le> w \<and> next_id (document s) \<le> p \<and> next_id (document s) \<le> n
          \<and> p \<noteq> n
          \<and> nodeType (document s') w = ELEMENT_NODE \<and> tagName (document s') w = ''div''
          \<and> attributes (document s') w ''class'' = Some (classes_arrows h)
          \<and> tagName (document s') p = ftag f1 \<and> tagName (document s') n = ftag f2
          \<and> childNodes (document s') w = [p, n]
          \<and> parentNode (document s') p = Some w \<and> parentNode (document s') n = Some w
          \<and> parentNode (document s') w = Some (arrows_parent h)
          \<and> childNodes (document s') (arrows_parent h)
              = insert_before w r (childNodes (document s) (arrows_parent h))
          \<and> firstElementChild (document s') (arrows_parent h) = Some w
          \<and> frame (arrows_parent h) (document s) (document s')
          \<and> destroy s' = Inr s''
          \<and> created s'' \<and> prev s'' = Some p \<and> nodeType (document s'') w = ELEMENT_NODE
          \<and> parentNode (document s'') w = None
          \<and> (\<forall>x < next_id (document s).
                childNodes (document s'') x = childNodes (document s) x
                \<and> parentNode (document s'') x = parentNode (document s) x)
          \<and> childNodes (document s'') w = [p, n]
          \<and> parentNode (document s'') p = Some w \<and> parentNode (document s'') n = Some w"
proof -
  let ?d = "document s"
  let ?P = "arrows_parent h"
  have r: "r \<in> set (childNodes ?d ?P)" using firstElementChild_mem [OF first] by simp
  have P: "?P < next_id ?d" "nodeType ?d ?P = ELEMENT_NODE"
    using wf_dom_child [OF wf r] by simp_all
  obtain s' w p n where m: "mount b h s = Inr s'" and st: "created s'" "prev s' = Some p"
      "next_arrow s' = Some n"
    and fresh: "next_id ?d \<le> p" "next_id ?d \<le> n" "next_id ?d \<le> w" "p \<noteq> n" "w \<noteq> p" "w \<noteq> n"
    and ty: "tagName (document s') p = ftag f1" "tagName (document s') n = ftag f2"
      "nodeType (document s') w = ELEMENT_NODE" "tagName (document s') w = ''div''"
      "attributes (document s') w ''class'' = Some (classes_arrows h)"
    and kids: "childNodes (document s') w = [p, n]"
      "parentNode (document s') p = Some w" "parentNode (document s') n = Some w"
    and fr: "frame ?P ?d (document s')"
    and ins: "parentNode (document s') w = Some ?P"
      "childNodes (document s') ?P = insert_before w r (childNodes ?d ?P)"
      "firstElementChild (document s') ?P = Some w"
    using mount_fabricates [OF missing enabled wf P(1) parse_prev parse_next]
    by (auto simp: first)
  let ?d' = "document s'"
  have P': "nodeType ?d' ?P = ELEMENT_NODE" using fr P by (simp add: frame_def)
  have pe: "parentElement ?d' w = Some ?P" using ins(1) P' by (simp add: parentElement_def)
  define s'' where "s'' = s'\<lparr>document := removeChild ?P w
      (fold (\<lambda>elm. removeAttribute elm (Single ''disabled'')) [prev s', next_arrow s'] ?d')\<rparr>"
  have de: "destroy s' = Inr s''"
    using destroy_created [OF st(1,2) kids(2) ty(3)] by (simp add: pe s''_def)
  have par'': "parentNode (document s'') = (parentNode ?d')(w := None)"
    and kids'': "childNodes (document s'') = (childNodes ?d')(?P := removeAll w (childNodes ?d' ?P))"
    by (simp_all add: s''_def removeChild_fields clear_disabled_fields del: fold.simps)
  have w_new: "w \<notin> set (childNodes ?d ?P)"
    using wf_dom_child(1) [OF wf] fresh(3) by fastforce
  have restored: "childNodes (document s'') ?P = childNodes ?d ?P"
    by (simp add: kids'' ins(2) removeAll_insert_before [OF w_new])
  have old: "childNodes (document s'') x = childNodes ?d x \<and> parentNode (document s'') x = parentNode ?d x"
    if "x < next_id ?d" for x
  proof (cases "x = ?P")
    case True
    then show ?thesis using restored fr that fresh(3) by (simp add: par'' frame_def)
  next
    case False
    then show ?thesis using fr that fresh(3) by (simp add: par'' kids'' frame_def)
  qed
  have wP: "w \<noteq> ?P" using P(1) fresh(3) by simp
  have rest: "parentNode (document s'') w = None" "childNodes (document s'') w = [p, n]"
    "parentNode (document s'') p = Some w" "parentNode (document s'') n = Some w"
    using wP fresh kids by (simp_all add: par'' kids'')
  have st'': "created s''" "prev s'' = Some p" "nodeType (document s'') w = ELEMENT_NODE"
    using st ty(3)
    by (simp_all add: s''_def removeChild_fields clear_disabled_fields del: fold.simps)
  show ?thesis
    apply (rule exI [of _ s'], rule exI [of _ s''], rule exI [of _ w], rule exI [of _ p],
        rule exI [of _ n])
    using m st fresh ty kids fr ins de old rest st'' by simp
qed

text \<open>
  C2, as the code has it. First half: when the markup has neither arrow, the arrows
  option is enabled, the browser parses the markup of each arrow to a button, and the
  element the wrapper goes into (the slider or the root) has an element child, then
  \<open>mount\<close> returns with \<open>created\<close> true, one new \<^verbatim>\<open>div\<close> holds exactly the two new
  buttons, it has been inserted into that element and no other node of the page has
  changed; \<open>destroy\<close> then returns, the wrapper has no parent, it still holds the two
  buttons, and every node of the page has the children and the parent it had before
  \<open>mount\<close>. Second half: when the markup has both arrows, \<open>mount\<close> leaves the document
  and \<open>created\<close> as they are, and \<open>destroy\<close> then changes nothing but the attribute
  \<^verbatim>\<open>disabled\<close> of the two arrows, which it removes.
\<close>

theorem mount_then_destroy:
  "(elements_prev h = None \<and> elements_next h = None \<and> option_truthy (options_arrows h)
    \<and> wf_dom (document s) \<and> firstElementChild (document s) (arrows_parent h) = Some r
    \<and> parseHTML b (arrow_html h True) = FElement ''button'' a1 c1 # fs1
    \<and> parseHTML b (arrow_html h False) = FElement ''button'' a2 c2 # fs2
    \<longrightarrow> (\<exists>s' s'' w p n.
          mount b h s = Inr s' \<and> created s' \<and> prev s' = Some p \<and> next_arrow s' = Some n
          \<and> next_id (document s) \<le> w \<and> next_id (document s) \<le> p \<and> next_id (document s) \<le> n
          \<and> p \<noteq> n
          \<and> nodeType (document s') w = ELEMENT_NODE \<and> tagName (document s') w = ''div''
          \<and> tagName (document s') p = ''button'' \<and> tagName (document s') n = ''button''
          \<and> childNodes (document s') w = [p, n]
          \<and> parentNode (document s') p = Some w \<and> parentNode (document s') n = Some w
          \<and> parentNode (document s') w = Some (arrows_parent h)
          \<and> childNodes (document s') (arrows_parent h)
              = insert_before w r (childNodes (document s) (arrows_parent h))
          \<and> frame (arrows_parent h) (document s) (document s')
          \<and> destroy s' = Inr s''
          \<and> parentNode (document s'') w = None
          \<and> (\<forall>x < next_id (document s).
                childNodes (document s'') x = childNodes (document s) x
                \<and> parentNode (document s'') x = parentNode (document s) x)
          \<and> childNodes (document s'') w = [p, n]
          \<and> parentNode (document s'') p = Some w \<and> parentNode (document s'') n = Some w))
   \<and> (elements_prev hm = Some pm \<and> elements_next hm = Some nm \<and> \<not> created sm
    \<longrightarrow> (\<exists>s' s''.
          mount bm hm sm = Inr s' \<and> document s' = document sm \<and> \<not> created s'
          \<and> prev s' = Some pm \<and> next_arrow s' = Some nm
          \<and> destroy s' = Inr s''
          \<and> parentNode (document s'') = parentNode (document sm)
          \<and> childNodes (document s'') = childNodes (document sm)
          \<and> nodeType (document s'') = nodeType (document sm)
          \<and> tagName (document s'') = tagName (document sm)
          \<and> next_id (document s'') = next_id (document sm)
          \<and> (\<forall>x a. attributes (document s'') x a =
                (if (x = pm \<or> x = nm) \<and> a = ''disabled'' then None
                 else attributes (document sm) x a))))"
proof (intro conjI impI)
  assume A: "elements_prev h = None \<and> elements_next h = None \<and> option_truthy (options_arrows h)
    \<and> wf_dom (document s) \<and> firstElementChild (document s) (arrows_parent h) = Some r
    \<and> parseHTML b (arrow_html h True) = FElement ''button'' a1 c1 # fs1
    \<and> parseHTML b (arrow_html h False) = FElement ''button'' a2 c2 # fs2"
  then have "elements_prev h = None \<or> elements_next h = None" "option_truthy (options_arrows h)"
    "wf_dom (document s)" "firstElementChild (document s) (arrows_parent h) = Some r"
    "parseHTML b (arrow_html h True) = FElement ''button'' a1 c1 # fs1"
    "parseHTML b (arrow_html h False) = FElement ''button'' a2 c2 # fs2"
    by simp_all
  from fabricate_then_destroy [OF this]
  show "\<exists>s' s'' w p n.
          mount b h s = Inr s' \<and> created s' \<and> prev s' = Some p \<and> next_arrow s' = Some n
          \<and> next_id (document s) \<le> w \<and> next_id (document s) \<le> p \<and> next_id (document s) \<le> n
          \<and> p \<noteq> n
          \<and> nodeType (document s') w = ELEMENT_NODE \<and> tagName (document s') w = ''div''
          \<and> tagName (document s') p = ''button'' \<and> tagName (document s') n = ''button''
          \<and> childNodes (document s') w = [p, n]
          \<and> parentNode (document s') p = Some w \<and> parentNode (document s') n = Some w
          \<and> parentNode (document s') w = Some (arrows_parent h)
          \<and> childNodes (document s') (arrows_parent h)
              = insert_before w r (childNodes (document s) (arrows_parent h))
          \<and> frame (arrows_parent h) (document s) (document s')
          \<and> destroy s' = Inr s''
          \<and> parentNode (document s'') w = None
          \<and> (\<forall>x < next_id (document s).
                childNodes (document s'') x = childNodes (document s) x
                \<and> parentNode (document s'') x = parentNode (document s) x)
          \<and> childNodes (document s'') w = [p, n]
          \<and> parentNode (document s'') p = Some w \<and> parentNode (document s'') n = Some w"
    unfolding ftag_def fragment.case by blast
next
  assume B: "elements_prev hm = Some pm \<and> elements_next hm = Some nm \<and> \<not> created sm"
  define s' where "s' = (bind_listeners (sm\<lparr>prev := Some pm, next_arrow := Some nm\<rparr>))
            \<lparr>arrows_field := Some (Some pm, Some nm)\<rparr>"
  have m: "mount bm hm sm = Inr s'"
    using mount_found [of hm pm nm bm sm] B by (simp add: s'_def)
  have st: "document s' = document sm" "\<not> created s'" "prev s' = Some pm" "next_arrow s' = Some nm"
    using B by (simp_all add: s'_def bind_listeners_def)
  obtain s'' where de: "destroy s' = Inr s''"
    "parentNode (document s'') = parentNode (document s')"
    "childNodes (document s'') = childNodes (document s')"
    "nodeType (document s'') = nodeType (document s')"
    "tagName (document s'') = tagName (document s')"
    "next_id (document s'') = next_id (document s')"
    "\<forall>x a. attributes (document s'') x a =
           (if (Some x = prev s' \<or> Some x = next_arrow s') \<and> a = ''disabled'' then None
            else attributes (document s') x a)"
    using destroy_not_created [OF st(2)] by blast
  show "\<exists>s' s''.
          mount bm hm sm = Inr s' \<and> document s' = document sm \<and> \<not> created s'
          \<and> prev s' = Some pm \<and> next_arrow s' = Some nm
          \<and> destroy s' = Inr s''
          \<and> parentNode (document s'') = parentNode (document sm)
          \<and> childNodes (document s'') = childNodes (document sm)
          \<and> nodeType (document s'') = nodeType (document sm)
          \<and> tagName (document s'') = tagName (document sm)
          \<and> next_id (document s'') = next_id (document sm)
          \<and> (\<forall>x a. attributes (document s'') x a =
                (if (x = pm \<or> x = nm) \<and> a = ''disabled'' then None
                 else attributes (document sm) x a))"
    apply (rule exI [of _ s'], rule exI [of _ s''])
    using m st de by simp
qed


lemma example_parent:
  "arrows_parent example_plain_host = 0" "arrows_parent example_host = 0"
  "arrows_parent example_slider_host = 4"
  by (simp_all add: arrows_parent_def example_plain_host_def example_host_def
      example_slider_host_def)

lemma example_first:
  "firstElementChild example_page 0 = Some 1" "firstElementChild example_page 4 = Some 5"
  "firstElementChild example_empty_page 0 = None"
  by (simp_all add: firstElementChild_def children_def example_page_def example_empty_page_def)

text \<open>Both halves on the example page.\<close>

theorem mount_then_destroy_witness:
  "(elements_prev example_plain_host = None \<and> elements_next example_plain_host = None
    \<and> option_truthy (options_arrows example_plain_host)
    \<and> wf_dom (document (initial example_page))
    \<and> firstElementChild (document (initial example_page)) (arrows_parent example_plain_host) = Some 1
    \<and> (\<exists>a c fs. parseHTML example_browser (arrow_html example_plain_host True)
          = FElement ''button'' a c # fs)
    \<and> (\<exists>a c fs. parseHTML example_browser (arrow_html example_plain_host False)
          = FElement ''button'' a c # fs))
   \<and> (\<exists>s' s'' w. mount example_browser example_plain_host (initial example_page) = Inr s'
         \<and> created s' \<and> childNodes (document s') 0 = [w, 1, 4]
         \<and> destroy s' = Inr s''
         \<and> parentNode (document s'') w = None \<and> childNodes (document s'') 0 = [1, 4])
   \<and> (elements_prev example_host = Some 2 \<and> elements_next example_host = Some 3
        \<and> \<not> created (initial example_page))
   \<and> (\<exists>s' s''. mount example_browser example_host (initial example_page) = Inr s'
         \<and> \<not> created s' \<and> document s' = example_page
         \<and> destroy s' = Inr s''
         \<and> parentNode (document s'') 2 = Some 1 \<and> parentNode (document s'') 3 = Some 1
         \<and> childNodes (document s'') 1 = [2, 3])"
proof -
  let ?a1 = "[(''class'', ''splide__arrow splide__arrow--prev'')]"
  let ?a2 = "[(''class'', ''splide__arrow splide__arrow--next'')]"
  let ?c = "[FForeign ''svg''
          [(''xmlns'', ''http://www.w3.org/2000/svg''), (''viewBox'', ''0 0 40 40''),
           (''width'', ''40''), (''height'', ''40'')]
          [FForeign ''path'' [(''d'', ''m0 0'')] []]]"
  have h0: "elements_prev example_plain_host = None" "elements_next example_plain_host = None"
    "option_truthy (options_arrows example_plain_host)"
    by (simp_all add: example_plain_host_def example_host_def)
  have A: "elements_prev example_plain_host = None \<and> elements_next example_plain_host = None
    \<and> option_truthy (options_arrows example_plain_host)
    \<and> wf_dom (document (initial example_page))
    \<and> firstElementChild (document (initial example_page)) (arrows_parent example_plain_host) = Some 1
    \<and> parseHTML example_browser (arrow_html example_plain_host True) = FElement ''button'' ?a1 ?c # []
    \<and> parseHTML example_browser (arrow_html example_plain_host False) = FElement ''button'' ?a2 ?c # []"
    using h0
    by (simp add: initial_def wf_example_page example_parent example_first example_parse
        example_button_def)
  have B: "elements_prev example_host = Some 2 \<and> elements_next example_host = Some 3
        \<and> \<not> created (initial example_page)"
    by (simp add: example_host_def initial_def)
  have kids: "childNodes example_page 0 = [1, 4]" "childNodes example_page 1 = [2, 3]"
    "childNodes example_page (Suc 0) = [2, 3]"
    "parentNode example_page 2 = Some 1" "parentNode example_page 3 = Some 1"
    "next_id example_page = 6"
    by (simp_all add: example_page_def)
  note T = mount_then_destroy [where h = example_plain_host and s = "initial example_page"
      and r = 1 and b = example_browser and ?a1.0 = ?a1 and ?c1.0 = ?c and ?fs1.0 = "[]"
      and ?a2.0 = ?a2 and ?c2.0 = ?c and ?fs2.0 = "[]"
      and hm = example_host and pm = 2 and nm = 3 and sm = "initial example_page"
      and bm = example_browser]
  have doc: "document (initial example_page) = example_page" by (simp add: initial_def)
  obtain s' s'' w where "mount example_browser example_plain_host (initial example_page) = Inr s'"
    "created s'"
    "childNodes (document s') 0 = insert_before w 1 (childNodes example_page 0)"
    "next_id example_page \<le> w"
    "destroy s' = Inr s''" "parentNode (document s'') w = None"
    "\<forall>x < next_id example_page. childNodes (document s'') x = childNodes example_page x
          \<and> parentNode (document s'') x = parentNode example_page x"
    using T A unfolding doc example_parent by blast
  then have partA: "\<exists>s' s'' w. mount example_browser example_plain_host (initial example_page) = Inr s'
         \<and> created s' \<and> childNodes (document s') 0 = [w, 1, 4]
         \<and> destroy s' = Inr s''
         \<and> parentNode (document s'') w = None \<and> childNodes (document s'') 0 = [1, 4]"
    by (auto simp: kids insert_before_def)
  obtain t' t'' where "mount example_browser example_host (initial example_page) = Inr t'"
    "\<not> created t'" "document t' = example_page" "destroy t' = Inr t''"
    "parentNode (document t'') = parentNode example_page"
    "childNodes (document t'') = childNodes example_page"
    using T B unfolding doc by blast
  then have partB: "\<exists>s' s''. mount example_browser example_host (initial example_page) = Inr s'
         \<and> \<not> created s' \<and> document s' = example_page
         \<and> destroy s' = Inr s''
         \<and> parentNode (document s'') 2 = Some 1 \<and> parentNode (document s'') 3 = Some 1
         \<and> childNodes (document s'') 1 = [2, 3]"
    by (auto simp: kids)
  show ?thesis using A B partA partB by blast
qed

lemma mount_on_empty_root:
  "\<exists>s' w p. mount example_browser example_plain_host (initial example_empty_page) = Inr s'
     \<and> created s' \<and> prev s' = Some p
     \<and> parentNode (document s') p = Some w \<and> nodeType (document s') w = ELEMENT_NODE
     \<and> tagName (document s') w = ''div''
     \<and> parentNode (document s') w = None
     \<and> childNodes (document s') 0 = []"
proof -
  let ?s = "initial example_empty_page"
  have doc: "document ?s = example_empty_page" by (simp add: initial_def)
  have h: "elements_prev example_plain_host = None \<or> elements_next example_plain_host = None"
    "option_truthy (options_arrows example_plain_host)"
    by (simp_all add: example_plain_host_def example_host_def)
  have wf: "wf_dom (document ?s)" by (simp add: doc wf_example_empty_page)
  have ok: "arrows_parent example_plain_host < next_id (document ?s)"
    by (simp add: initial_def example_parent example_empty_page_def)
  have fe: "firstElementChild (document ?s) (arrows_parent example_plain_host) = None"
    by (simp add: doc example_parent example_first)
  have kids: "childNodes (document ?s) (arrows_parent example_plain_host) = []"
    by (simp add: initial_def example_parent example_empty_page_def)
  note F = mount_fabricates [OF h wf ok example_parse(1) example_parse(2), unfolded fe kids]
  then show ?thesis unfolding example_parent by (simp del: mount_def) blast
qed

text \<open>
  C2 as stated fails on a root without element children: \<open>mount\<close> creates the arrows and
  the wrapper, the wrapper is not inserted, and \<open>destroy\<close> raises.
\<close>

theorem mount_on_empty_root_then_destroy:
  "elements_prev example_plain_host = None \<and> elements_next example_plain_host = None
   \<and> option_truthy (options_arrows example_plain_host)
   \<and> (\<exists>s'. mount example_browser example_plain_host (initial example_empty_page) = Inr s'
         \<and> created s'
         \<and> childNodes (document s') (root example_plain_host) = []
         \<and> destroy s' = Inl TypeError)"
proof -
  have h: "elements_prev example_plain_host = None" "elements_next example_plain_host = None"
    "option_truthy (options_arrows example_plain_host)" "root example_plain_host = 0"
    by (simp_all add: example_plain_host_def example_host_def)
  obtain s' w p where m: "mount example_browser example_plain_host (initial example_empty_page) = Inr s'"
    and st: "created s'" "prev s' = Some p"
    and w: "parentNode (document s') p = Some w" "nodeType (document s') w = ELEMENT_NODE"
      "parentNode (document s') w = None"
    and kids: "childNodes (document s') 0 = []"
    using mount_on_empty_root by blast
  have "destroy s' = Inl TypeError"
    using destroy_created [OF st w(1,2)] w(3) by (simp add: parentElement_def)
  then show ?thesis
    using h m st kids by auto
qed

section \<open>Where the wrapper goes\<close>

text \<open>
  C8, as the code has it: whenever \<open>mount\<close> fabricates the arrows (an arrow is missing
  from the markup and the arrows option is enabled) and the element chosen for them has
  an element child, the new wrapper is inserted before the first element child of that
  element and so becomes its first element child. The element chosen is the slider when
  the arrows option is \<^verbatim>\<open>'slider'\<close> and the slider exists, and the root otherwise.
\<close>

theorem wrapper_inserted_first:
  assumes "elements_prev h = None \<or> elements_next h = None"
    and "option_truthy (options_arrows h)"
    and "wf_dom (document s)"
    and "firstElementChild (document s) (arrows_parent h) = Some r"
    and "parseHTML b (arrow_html h True) \<noteq> []"
    and "parseHTML b (arrow_html h False) \<noteq> []"
  shows "(\<exists>s' w p n. mount b h s = Inr s' \<and> created s'
       \<and> prev s' = Some p \<and> next_arrow s' = Some n
       \<and> next_id (document s) \<le> w
       \<and> nodeType (document s') w = ELEMENT_NODE \<and> tagName (document s') w = ''div''
       \<and> attributes (document s') w ''class'' = Some (classes_arrows h)
       \<and> childNodes (document s') w = [p, n]
       \<and> parentNode (document s') w = Some (arrows_parent h)
       \<and> firstElementChild (document s') (arrows_parent h) = Some w
       \<and> childNodes (document s') (arrows_parent h)
           = insert_before w r (childNodes (document s) (arrows_parent h)))
     \<and> (\<forall>slider. options_arrows h = ArrowsString ''slider'' \<and> elements_slider h = Some slider
           \<longrightarrow> arrows_parent h = slider)
     \<and> (options_arrows h \<noteq> ArrowsString ''slider'' \<or> elements_slider h = None
           \<longrightarrow> arrows_parent h = root h)"
proof -
  obtain f1 fs1 f2 fs2 where p: "parseHTML b (arrow_html h True) = f1 # fs1"
    "parseHTML b (arrow_html h False) = f2 # fs2"
    using assms(5,6) by (meson list.exhaust)
  from fabricate_then_destroy [OF assms(1-4) p]
  have "\<exists>s' w p n. mount b h s = Inr s' \<and> created s'
       \<and> prev s' = Some p \<and> next_arrow s' = Some n
       \<and> next_id (document s) \<le> w
       \<and> nodeType (document s') w = ELEMENT_NODE \<and> tagName (document s') w = ''div''
       \<and> attributes (document s') w ''class'' = Some (classes_arrows h)
       \<and> childNodes (document s') w = [p, n]
       \<and> parentNode (document s') w = Some (arrows_parent h)
       \<and> firstElementChild (document s') (arrows_parent h) = Some w
       \<and> childNodes (document s') (arrows_parent h)
           = insert_before w r (childNodes (document s) (arrows_parent h))"
    by blast
  then show ?thesis
    by (auto simp: arrows_parent_def split: option.splits)
qed

text \<open>The arrows asked for in the slider of the example page.\<close>

theorem wrapper_inserted_first_witness:
  "(elements_prev example_slider_host = None \<or> elements_next example_slider_host = None)
   \<and> option_truthy (options_arrows example_slider_host)
   \<and> wf_dom (document (initial example_page))
   \<and> firstElementChild (document (initial example_page)) (arrows_parent example_slider_host) = Some 5
   \<and> parseHTML example_browser (arrow_html example_slider_host True) \<noteq> []
   \<and> parseHTML example_browser (arrow_html example_slider_host False) \<noteq> []
   \<and> options_arrows example_slider_host = ArrowsString ''slider''
   \<and> elements_slider example_slider_host = Some 4
   \<and> (\<exists>s' w. mount example_browser example_slider_host (initial example_page) = Inr s'
         \<and> tagName (document s') w = ''div''
         \<and> parentNode (document s') w = Some 4
         \<and> firstElementChild (document s') 4 = Some w
         \<and> childNodes (document s') 4 = [w, 5])"
proof -
  have doc: "document (initial example_page) = example_page" by (simp add: initial_def)
  have h: "elements_prev example_slider_host = None \<or> elements_next example_slider_host = None"
    "option_truthy (options_arrows example_slider_host)"
    "options_arrows example_slider_host = ArrowsString ''slider''"
    "elements_slider example_slider_host = Some 4"
    by (simp_all add: example_slider_host_def example_plain_host_def example_host_def)
  have wf: "wf_dom (document (initial example_page))" by (simp add: doc wf_example_page)
  have first: "firstElementChild (document (initial example_page)) (arrows_parent example_slider_host) = Some 5"
    by (simp add: doc example_parent example_first)
  have parse: "parseHTML example_browser (arrow_html example_slider_host True) \<noteq> []"
    "parseHTML example_browser (arrow_html example_slider_host False) \<noteq> []"
    by (simp_all add: example_parse)
  have kids: "childNodes example_page 4 = [5]" by (simp add: example_page_def)
  from wrapper_inserted_first [OF h(1,2) wf first parse]
  obtain s' w where "mount example_browser example_slider_host (initial example_page) = Inr s'"
    "tagName (document s') w = ''div''"
    "parentNode (document s') w = Some (arrows_parent example_slider_host)"
    "firstElementChild (document s') (arrows_parent example_slider_host) = Some w"
    "childNodes (document s') (arrows_parent example_slider_host)
       = insert_before w 5 (childNodes (document (initial example_page)) (arrows_parent example_slider_host))"
    by blast
  then have "\<exists>s' w. mount example_browser example_slider_host (initial example_page) = Inr s'
         \<and> tagName (document s') w = ''div''
         \<and> parentNode (document s') w = Some 4
         \<and> firstElementChild (document s') 4 = Some w
         \<and> childNodes (document s') 4 = [w, 5]"
    unfolding doc example_parent kids by (auto simp: insert_before_def)
  then show ?thesis using h wf first parse by blast
qed

text \<open>
  C8 as stated fails on a root without element children: the wrapper is created and
  holds the arrows, but it has no parent and the root stays empty.
\<close>

theorem wrapper_not_inserted_in_empty_root:
  "(elements_prev example_plain_host = None \<or> elements_next example_plain_host = None)
   \<and> option_truthy (options_arrows example_plain_host)
   \<and> arrows_parent example_plain_host = root example_plain_host
   \<and> (\<exists>s' w p. mount example_browser example_plain_host (initial example_empty_page) = Inr s'
         \<and> created s' \<and> prev s' = Some p
         \<and> parentNode (document s') p = Some w \<and> tagName (document s') w = ''div''
         \<and> parentNode (document s') w = None
         \<and> firstChild (document s') (root example_plain_host) = None)"
proof -
  have h: "elements_prev example_plain_host = None" "option_truthy (options_arrows example_plain_host)"
    "root example_plain_host = 0"
    by (simp_all add: example_plain_host_def example_host_def)
  show ?thesis
    using mount_on_empty_root h by (auto simp: example_parent firstChild_def)
qed

section \<open>remove\<close>

lemma remove_each_detaches:
  assumes "distinct (filter (\<lambda>e. e \<noteq> None) elms)"
    and "\<forall>e. Some e \<in> set elms \<longrightarrow> parentElement d e \<noteq> None"
  shows "\<exists>d'. remove_each elms d = Inr d'
     \<and> (\<forall>e. Some e \<in> set elms \<longrightarrow>
           parentNode d' e = None
           \<and> (\<forall>p. parentNode d e = Some p \<longrightarrow> e \<notin> set (childNodes d' p)))
     \<and> (\<forall>x. Some x \<notin> set elms \<longrightarrow> parentNode d' x = parentNode d x)
     \<and> (\<forall>p. set (childNodes d' p) \<subseteq> set (childNodes d p))
     \<and> nodeType d' = nodeType d \<and> attributes d' = attributes d \<and> next_id d' = next_id d"
  using assms
proof (induction elms d rule: remove_each.induct)
  case (1 d)
  show ?case by simp
next
  case (2 elms d)
  then show ?case by simp
next
  case (3 elm elms d)
  obtain p where pe: "parentElement d elm = Some p" using 3(3) by auto
  then have par: "parentNode d elm = Some p"
    by (auto simp: parentElement_def split: option.splits if_splits)
  let ?d1 = "removeChild p elm d"
  have notin: "Some elm \<notin> set elms" using 3(2) by auto
  have pe1: "parentElement ?d1 e = parentElement d e" if "e \<noteq> elm" for e
    using that by (simp add: parentElement_def removeChild_fields split: option.splits)
  have "distinct (filter (\<lambda>e. e \<noteq> None) elms)" using 3(2) by simp
  moreover have "\<forall>e. Some e \<in> set elms \<longrightarrow> parentElement ?d1 e \<noteq> None"
  proof (intro allI impI)
    fix e
    assume e: "Some e \<in> set elms"
    then have "e \<noteq> elm" using notin by auto
    moreover have "parentElement d e \<noteq> None" using 3(3) e by simp
    ultimately show "parentElement ?d1 e \<noteq> None" by (simp add: pe1)
  qed
  ultimately obtain d' where d': "remove_each elms ?d1 = Inr d'"
    and gone: "\<forall>e. Some e \<in> set elms \<longrightarrow>
           parentNode d' e = None
           \<and> (\<forall>q. parentNode ?d1 e = Some q \<longrightarrow> e \<notin> set (childNodes d' q))"
    and kept: "\<forall>x. Some x \<notin> set elms \<longrightarrow> parentNode d' x = parentNode ?d1 x"
    and sub: "\<forall>q. set (childNodes d' q) \<subseteq> set (childNodes ?d1 q)"
    and same: "nodeType d' = nodeType ?d1" "attributes d' = attributes ?d1"
      "next_id d' = next_id ?d1"
    using 3(1) [OF pe] by blast
  have r: "remove_each (Some elm # elms) d = Inr d'" by (simp add: pe d')
  have "parentNode d' elm = parentNode ?d1 elm" using kept notin by blast
  then have elm_gone1: "parentNode d' elm = None" by (simp add: removeChild_fields)
  have "set (childNodes d' p) \<subseteq> set (childNodes ?d1 p)" using sub by blast
  moreover have "elm \<notin> set (childNodes ?d1 p)" by (simp add: removeChild_fields)
  ultimately have elm_gone2: "elm \<notin> set (childNodes d' p)" by blast
  note elm_gone = elm_gone1 elm_gone2
  have others: "parentNode d' e = None \<and> (\<forall>q. parentNode d e = Some q \<longrightarrow> e \<notin> set (childNodes d' q))"
    if "Some e \<in> set elms" for e
  proof -
    have "e \<noteq> elm" using that notin by auto
    then have "parentNode ?d1 e = parentNode d e" by (simp add: removeChild_fields)
    then show ?thesis using gone that by simp
  qed
  have kept': "\<forall>x. Some x \<notin> set (Some elm # elms) \<longrightarrow> parentNode d' x = parentNode d x"
    using kept by (auto simp: removeChild_fields)
  have sub': "\<forall>q. set (childNodes d' q) \<subseteq> set (childNodes d q)"
    using sub by (auto simp: removeChild_fields split: if_splits)
  show ?case
    unfolding r using elm_gone others kept' sub' same par
    by (auto simp: removeChild_fields)
qed

text \<open>
  C4, as the code has it: for a single element or an array whose entries other than
  null are pairwise different and each have a parent element, \<open>remove\<close> returns, every
  such entry has no parent afterwards and is no longer among the children of the parent
  it had, null entries are skipped, and no other node loses its parent.
\<close>

theorem remove_detaches_attached:
  assumes "distinct (filter (\<lambda>e. e \<noteq> None) (toArray elms))"
    and "\<forall>e. Some e \<in> set (toArray elms) \<longrightarrow> parentElement d e \<noteq> None"
  shows "\<exists>d'. remove_dom elms d = Inr d'
     \<and> (\<forall>e. Some e \<in> set (toArray elms) \<longrightarrow>
           parentNode d' e = None
           \<and> (\<forall>p. parentNode d e = Some p \<longrightarrow> e \<notin> set (childNodes d' p)))
     \<and> (\<forall>x. Some x \<notin> set (toArray elms) \<longrightarrow> parentNode d' x = parentNode d x)
     \<and> (\<forall>p. set (childNodes d' p) \<subseteq> set (childNodes d p))"
  using remove_each_detaches [OF assms] unfolding remove_dom_def by blast

text \<open>Removing the previous arrow and the track of the example page, with a null between.\<close>

theorem remove_detaches_attached_witness:
  "distinct (filter (\<lambda>e. e \<noteq> None) (toArray (Many [Some (2::nat), None, Some 5])))
   \<and> parentElement example_page 2 = Some 1 \<and> parentElement example_page 5 = Some 4
   \<and> (\<exists>d'. remove_dom (Many [Some 2, None, Some 5]) example_page = Inr d'
         \<and> parentNode d' 2 = None \<and> parentNode d' 5 = None
         \<and> 2 \<notin> set (childNodes d' 1) \<and> 5 \<notin> set (childNodes d' 4)
         \<and> parentNode d' 3 = Some 1)"
proof -
  have 1: "distinct (filter (\<lambda>e. e \<noteq> None) (toArray (Many [Some 2, None, Some 5 :: nat option])))"
    by simp
  have 2: "\<forall>e. Some e \<in> set (toArray (Many [Some 2, None, Some 5])) \<longrightarrow> parentElement example_page e \<noteq> None"
    by (simp add: parentElement_def example_page_def)
  have par: "parentNode example_page 2 = Some 1" "parentNode example_page 5 = Some 4"
    "parentNode example_page 3 = Some 1"
    by (simp_all add: example_page_def)
  from remove_detaches_attached [OF 1 2]
  obtain d' where r: "remove_dom (Many [Some 2, None, Some 5]) example_page = Inr d'"
    and g: "\<forall>e. Some e \<in> set (toArray (Many [Some 2, None, Some 5])) \<longrightarrow>
           parentNode d' e = None
           \<and> (\<forall>p. parentNode example_page e = Some p \<longrightarrow> e \<notin> set (childNodes d' p))"
    and k: "\<forall>x. Some x \<notin> set (toArray (Many [Some 2, None, Some 5])) \<longrightarrow>
           parentNode d' x = parentNode example_page x"
    by (elim exE conjE) (rule that)
  have a: "parentNode d' 2 = None \<and> 2 \<notin> set (childNodes d' 1)"
    using g par(1) by simp
  have b: "parentNode d' 5 = None \<and> 5 \<notin> set (childNodes d' 4)"
    using g par(2) by simp
  have c: "parentNode d' 3 = Some 1"
    using k par(3) by simp
  have "\<exists>d'. remove_dom (Many [Some 2, None, Some 5]) example_page = Inr d'
         \<and> parentNode d' 2 = None \<and> parentNode d' 5 = None
         \<and> 2 \<notin> set (childNodes d' 1) \<and> 5 \<notin> set (childNodes d' 4)
         \<and> parentNode d' 3 = Some 1"
    using r a b c by (intro exI [of _ d']) simp
  moreover have "parentElement example_page 2 = Some 1" "parentElement example_page 5 = Some 4"
    by (simp_all add: parentElement_def example_page_def)
  ultimately show ?thesis using 1 by (intro conjI)
qed

text \<open>
  C4 as stated fails on an element without a parent: \<^verbatim>\<open>elm.parentElement\<close> is null and
  \<^verbatim>\<open>.removeChild\<close> on it raises, also after an entry that was removed.
\<close>

theorem remove_without_parent_raises:
  "parentElement example_page 0 = None
   \<and> remove_dom (Single (Some 0)) example_page = Inl TypeError
   \<and> remove_dom (Many [Some 2, Some 0]) example_page = Inl TypeError"
  by (simp add: remove_dom_def parentElement_def example_page_def removeChild_def)

section \<open>destroy twice\<close>

lemma clear_disabled_idem:
  "fold (\<lambda>elm. removeAttribute elm (Single ''disabled'')) elms
     (fold (\<lambda>elm. removeAttribute elm (Single ''disabled'')) elms d)
   = fold (\<lambda>elm. removeAttribute elm (Single ''disabled'')) elms d"
proof -
  let ?c = "fold (\<lambda>elm. removeAttribute elm (Single ''disabled'')) elms"
  have "attributes (?c (?c d)) = attributes (?c d)"
    by (intro ext) (simp add: clear_disabled_fields)
  then show ?thesis
    by (intro dom.equality) (simp_all add: clear_disabled_fields)
qed

text \<open>
  C7, as the code has it: in every state of the component whose arrows were not
  fabricated (\<open>created\<close> is false), \<open>destroy\<close> returns, and a second \<open>destroy\<close> returns
  the very same state: the document, the arrows and everything else are as after the
  first call.
\<close>

theorem destroy_twice:
  assumes "\<not> created s"
  shows "\<exists>s'. destroy s = Inr s' \<and> destroy s' = Inr s'"
proof -
  let ?c = "fold (\<lambda>elm. removeAttribute elm (Single ''disabled'')) [prev s, next_arrow s]"
  have 1: "destroy s = Inr (s\<lparr>document := ?c (document s)\<rparr>)"
    using assms by (simp add: destroy_def Let_def del: fold.simps)
  have 2: "destroy (s\<lparr>document := ?c (document s)\<rparr>)
      = Inr (s\<lparr>document := ?c (?c (document s))\<rparr>)"
    using assms by (simp add: destroy_def Let_def del: fold.simps)
  have 3: "destroy (s\<lparr>document := ?c (document s)\<rparr>) = Inr (s\<lparr>document := ?c (document s)\<rparr>)"
    using 2 unfolding clear_disabled_idem .
  show ?thesis using 1 3 by blast
qed

lemma example_mount:
  "mount example_browser example_host (initial example_page) = Inr example_mounted"
  by (simp add: mount_def Let_def example_host_def initial_def bind_listeners_def
      example_mounted_def)

text \<open>The component mounted on the arrows of the example page is such a state.\<close>

theorem destroy_twice_witness:
  "mount example_browser example_host (initial example_page) = Inr example_mounted
   \<and> \<not> created example_mounted
   \<and> (\<exists>s'. destroy example_mounted = Inr s' \<and> destroy s' = Inr s')"
  using destroy_twice [of example_mounted] example_mount
  by (simp add: example_mounted_def)

text \<open>
  C7 as stated fails for fabricated arrows: the first \<open>destroy\<close> detaches the wrapper
  and leaves \<open>created\<close> true, so the second one hands the detached wrapper to \<open>remove\<close>,
  which raises.
\<close>

theorem destroy_twice_fabricated_raises:
  "\<exists>s1 s2. mount example_browser example_plain_host (initial example_page) = Inr s1
     \<and> created s1 \<and> destroy s1 = Inr s2 \<and> destroy s2 = Inl TypeError"
proof -
  let ?s = "initial example_page"
  have doc: "document ?s = example_page" by (simp add: initial_def)
  have h: "elements_prev example_plain_host = None \<or> elements_next example_plain_host = None"
    "option_truthy (options_arrows example_plain_host)"
    by (simp_all add: example_plain_host_def example_host_def)
  have wf: "wf_dom (document ?s)" by (simp add: doc wf_example_page)
  have first: "firstElementChild (document ?s) (arrows_parent example_plain_host) = Some 1"
    by (simp add: doc example_parent example_first)
  from fabricate_then_destroy [OF h wf first example_parse(1) example_parse(2)]
  obtain s1 s2 w p where m: "mount example_browser example_plain_host ?s = Inr s1" "created s1"
    and d: "destroy s1 = Inr s2"
    and s2: "created s2" "prev s2 = Some p" "nodeType (document s2) w = ELEMENT_NODE"
      "parentNode (document s2) w = None" "parentNode (document s2) p = Some w"
    by blast
  have "destroy s2 = Inl TypeError"
    using destroy_created [OF s2(1,2,5,3)] s2(4) by (simp add: parentElement_def)
  then show ?thesis using m d by blast
qed

section \<open>The listeners and the arrows\<close>

lemma updateDisabled_keeps:
  "updateDisabled h nav s = Inr s' \<Longrightarrow>
     prev s' = prev s \<and> next_arrow s' = next_arrow s \<and> listeners s' = listeners s
     \<and> created s' = created s"
  by (auto simp: updateDisabled_def Let_def split: option.splits)

lemma updateDisabled_returns:
  "prev s \<noteq> None \<Longrightarrow> next_arrow s \<noteq> None \<Longrightarrow> \<exists>s'. updateDisabled h nav s = Inr s'"
  by (auto simp: updateDisabled_def Let_def split: option.splits)

lemma dispatch_keeps:
  "dispatch h nav ev ls s = Inr s' \<Longrightarrow>
     prev s' = prev s \<and> next_arrow s' = next_arrow s \<and> listeners s' = listeners s
     \<and> created s' = created s"
proof (induction h nav ev ls s rule: dispatch.induct)
  case (2 h nav ev evs ls s)
  show ?case
  proof (cases "ev \<in> set evs")
    case True
    then obtain s1 where u: "updateDisabled h nav s = Inr s1" and d: "dispatch h nav ev ls s1 = Inr s'"
      using 2(3) by (auto split: sum.splits)
    show ?thesis using 2(1) [OF True u d] updateDisabled_keeps [OF u] by simp
  next
    case False
    then show ?thesis using 2(2) 2(3) by simp
  qed
qed simp_all

lemma dispatch_returns:
  "prev s \<noteq> None \<Longrightarrow> next_arrow s \<noteq> None \<Longrightarrow> \<exists>s'. dispatch h nav ev ls s = Inr s'"
proof (induction h nav ev ls s rule: dispatch.induct)
  case (2 h nav ev evs ls s)
  show ?case
  proof (cases "ev \<in> set evs")
    case True
    obtain s1 where u: "updateDisabled h nav s = Inr s1"
      using updateDisabled_returns [OF 2(3,4)] by blast
    have "prev s1 \<noteq> None" "next_arrow s1 \<noteq> None"
      using updateDisabled_keeps [OF u] 2(3,4) by simp_all
    then show ?thesis using 2(1) [OF True u] True u by simp
  next
    case False
    then show ?thesis using 2(2) 2(3,4) by simp
  qed
qed simp_all

lemma click_keeps:
  "prev (click h target ls s) = prev s \<and> next_arrow (click h target ls s) = next_arrow s
   \<and> listeners (click h target ls s) = listeners s"
  by (induction h target ls s rule: click.induct) (simp_all add: onClick_def)

lemma destroy_keeps:
  "destroy s = Inr s' \<Longrightarrow>
     prev s' = prev s \<and> next_arrow s' = next_arrow s \<and> listeners s' = listeners s"
  by (auto simp: destroy_def Let_def split: if_splits option.splits sum.splits
      simp del: fold.simps)

lemma appendArrows_keeps:
  "appendArrows b h s = Inr s' \<Longrightarrow>
     prev s \<noteq> None \<and> next_arrow s \<noteq> None
     \<and> prev s' = prev s \<and> next_arrow s' = next_arrow s \<and> listeners s' = listeners s"
  by (auto simp: appendArrows_def append_dom_def Let_def
      split: prod.splits sum.splits option.splits)

lemma mount_listeners:
  assumes "mount b h s = Inr s'"
  shows "(listeners s' = listeners s
          \<and> \<not> ((elements_prev h \<noteq> None \<and> elements_next h \<noteq> None)
                \<or> option_truthy (options_arrows h)))
         \<or> (prev s' \<noteq> None \<and> next_arrow s' \<noteq> None
            \<and> ((elements_prev h \<noteq> None \<and> elements_next h \<noteq> None)
               \<or> option_truthy (options_arrows h)))"
proof (cases "(elements_prev h = None \<or> elements_next h = None) \<and> option_truthy (options_arrows h)")
  case True
  obtain p d1 where a: "createArrow b h True (document s) = Inr (p, d1)"
    using assms True by (auto simp: mount_def Let_def split: sum.splits)
  obtain n d2 where b: "createArrow b h False d1 = Inr (n, d2)"
    using assms True by (auto simp: mount_def Let_def a split: sum.splits)
  let ?s2 = "s\<lparr>prev := p, next_arrow := n, created := True, document := d2\<rparr>"
  obtain s3 where ap: "appendArrows b h ?s2 = Inr s3"
    using assms True by (auto simp: mount_def Let_def a b split: sum.splits)
  have k: "prev s3 \<noteq> None" "next_arrow s3 \<noteq> None"
    using appendArrows_keeps [OF ap] by simp_all
  have "s' = (bind_listeners s3)\<lparr>arrows_field := Some (prev s3, next_arrow s3)\<rparr>"
    using assms True k by (auto simp: mount_def Let_def a b ap bind_listeners_def)
  then show ?thesis using k True by (simp add: bind_listeners_def)
next
  case False
  then show ?thesis
    using assms by (auto simp: mount_def Let_def bind_listeners_def split: if_splits)
qed

lemma mount_inv: "mount b h s = Inr s' \<Longrightarrow> arrows_inv h s \<Longrightarrow> arrows_inv h s'"
  using mount_listeners [of b h s s'] by (auto simp: arrows_inv_def)

lemma reachable_inv: "reachable b h s \<Longrightarrow> arrows_inv h s"
proof (induction rule: reachable.induct)
  case (r_initial d)
  show ?case by (simp add: arrows_inv_def initial_def)
next
  case (r_mount s s')
  then show ?case using mount_inv by blast
next
  case (r_mounted s)
  then show ?case by (simp add: arrows_inv_def mounted_def)
next
  case (r_destroy s s')
  then show ?case using destroy_keeps [of s s'] by (simp add: arrows_inv_def)
next
  case (r_event s nav ev s')
  then show ?case using dispatch_keeps [of h nav ev "listeners s" s s'] by (simp add: arrows_inv_def)
next
  case (r_click s target)
  then show ?case using click_keeps [of h target "listeners s" s] by (simp add: arrows_inv_def)
next
  case (r_page s d)
  then show ?case by (simp add: arrows_inv_def)
qed

text \<open>
  C10: a \<open>mount\<close> that registers listeners ends with both arrows present; in every state
  the component reaches under its host, registered listeners mean that both arrows are
  present; hence an event given to the registered listeners, which runs
  \<open>updateDisabled\<close>, never raises there.
\<close>

theorem listeners_only_with_both_arrows:
  "(mount b h s = Inr s' \<and> listeners s' \<noteq> listeners s
      \<longrightarrow> prev s' \<noteq> None \<and> next_arrow s' \<noteq> None)
   \<and> (reachable b h t \<and> listeners t \<noteq> [] \<longrightarrow> prev t \<noteq> None \<and> next_arrow t \<noteq> None)
   \<and> (reachable b h t \<longrightarrow> (\<exists>t'. dispatch h nav ev (listeners t) t = Inr t'))"
proof -
  have 1: "prev s' \<noteq> None \<and> next_arrow s' \<noteq> None"
    if "mount b h s = Inr s' \<and> listeners s' \<noteq> listeners s"
    using that mount_listeners [of b h s s'] by blast
  have 2: "prev t \<noteq> None \<and> next_arrow t \<noteq> None" if "reachable b h t \<and> listeners t \<noteq> []"
    using that reachable_inv [of b h t] by (simp add: arrows_inv_def)
  have 3: "\<exists>t'. dispatch h nav ev (listeners t) t = Inr t'" if r: "reachable b h t"
  proof (cases "listeners t = []")
    case True
    then show ?thesis by simp
  next
    case False
    then have "prev t \<noteq> None" "next_arrow t \<noteq> None"
      using reachable_inv [OF r] by (simp_all add: arrows_inv_def)
    then show ?thesis by (rule dispatch_returns)
  qed
  show ?thesis using 1 2 3 by blast
qed

text \<open>The component mounted on the example page, and a \<^verbatim>\<open>move\<close> event.\<close>

theorem listeners_only_with_both_arrows_witness:
  "mount example_browser example_host (initial example_page) = Inr example_mounted
   \<and> listeners example_mounted \<noteq> listeners (initial example_page)
   \<and> reachable example_browser example_host example_mounted
   \<and> listeners example_mounted \<noteq> []
   \<and> prev example_mounted \<noteq> None \<and> next_arrow example_mounted \<noteq> None
   \<and> (\<exists>t'. dispatch example_host example_navigation ''move'' (listeners example_mounted)
               example_mounted = Inr t')"
proof -
  have m: "mount example_browser example_host (initial example_page) = Inr example_mounted"
    by (rule example_mount)
  have l: "listeners example_mounted \<noteq> listeners (initial example_page)"
    "listeners example_mounted \<noteq> []"
    by (simp_all add: example_mounted_def initial_def)
  have r: "reachable example_browser example_host example_mounted"
    using r_mount [OF r_initial m] .
  show ?thesis
    using listeners_only_with_both_arrows [of example_browser example_host "initial example_page"
        example_mounted example_mounted example_navigation "''move''"] m l r
    by simp
qed

section \<open>domify\<close>

lemma domify_container:
  "\<exists>d1. create b ''div'' [] d = Inr (next_id d, d1)
     \<and> domify b html d
         = Inr (firstChild (build_all (next_id d) (parseHTML b html) d1) (next_id d),
                build_all (next_id d) (parseHTML b html) d1)
     \<and> next_id d1 = Suc (next_id d) \<and> childNodes d1 (next_id d) = []
     \<and> parentNode d1 (next_id d) = None \<and> nodeType d1 (next_id d) = ELEMENT_NODE
     \<and> tagName d1 (next_id d) = ''div'' \<and> frame (next_id d) d d1"
  by (simp add: domify_def create_div new_node_def set_innerHTML_def Let_def frame_def)

lemma top_ids_Nil: "top_ids k fs = [] \<longleftrightarrow> fs = []"
  by (cases fs) simp_all

text \<open>
  C9, as the code has it: for every string \<open>html\<close>, \<open>domify\<close> returns without raising;
  it makes a new \<^verbatim>\<open>div\<close> that has no parent, hands \<open>html\<close> to the parser and returns
  the first child node of that container. The result is null exactly when the parser
  yields no node; otherwise it is the first node the parser yields, of whatever kind,
  with the type and the tag the parser gave it. The nodes of the page are left as they
  were.
\<close>

theorem domify_first_child:
  "\<exists>res d'. domify b html d = Inr (res, d')
        \<and> nodeType d' (next_id d) = ELEMENT_NODE \<and> tagName d' (next_id d) = ''div''
        \<and> parentNode d' (next_id d) = None
        \<and> res = firstChild d' (next_id d)
        \<and> (res = None \<longleftrightarrow> parseHTML b html = [])
        \<and> frame (next_id d) d d'
        \<and> (\<forall>f fs. parseHTML b html = f # fs \<longrightarrow>
              (\<exists>e. res = Some e \<and> next_id d < e \<and> parentNode d' e = Some (next_id d)
                   \<and> nodeType d' e = ftype f \<and> tagName d' e = ftag f))"
proof -
  let ?k = "next_id d"
  obtain d1 where cr: "create b ''div'' [] d = Inr (?k, d1)"
    and dm: "domify b html d
         = Inr (firstChild (build_all ?k (parseHTML b html) d1) ?k,
                build_all ?k (parseHTML b html) d1)"
    and d1: "next_id d1 = Suc ?k" "childNodes d1 ?k = []" "parentNode d1 ?k = None"
      "nodeType d1 ?k = ELEMENT_NODE" "tagName d1 ?k = ''div''" "frame ?k d d1"
    using domify_container [of b d html] by (elim exE conjE) (rule that)
  let ?d' = "build_all ?k (parseHTML b html) d1"
  have k1: "?k < next_id d1" using d1(1) by simp
  have bf: "childNodes ?d' ?k = childNodes d1 ?k @ top_ids (next_id d1) (parseHTML b html)"
    "frame ?k d1 ?d'"
    using build_frame(2) [OF k1, of "parseHTML b html"] by simp_all
  have cont: "nodeType ?d' ?k = ELEMENT_NODE" "tagName ?d' ?k = ''div''" "parentNode ?d' ?k = None"
    using bf(2) d1 k1 by (simp_all add: frame_def)
  have none: "firstChild ?d' ?k = None \<longleftrightarrow> parseHTML b html = []"
  proof -
    have "firstChild ?d' ?k
        = (case top_ids (next_id d1) (parseHTML b html) of [] \<Rightarrow> None | c # _ \<Rightarrow> Some c)"
      by (simp add: firstChild_def bf(1) d1(2))
    then show ?thesis
      using top_ids_Nil [of "next_id d1" "parseHTML b html"] by (auto split: list.splits)
  qed
  have fr: "frame ?k d ?d'" using frame_trans [OF d1(6) bf(2)] .
  have first: "\<exists>e. firstChild ?d' ?k = Some e \<and> ?k < e \<and> parentNode ?d' e = Some ?k
                   \<and> nodeType ?d' e = ftype f \<and> tagName ?d' e = ftag f"
    if p: "parseHTML b html = f # fs" for f fs
  proof -
    obtain d'' where dd: "domify b html d = Inr (Some (Suc ?k), d'')"
      and r: "parentNode d'' (Suc ?k) = Some ?k" "nodeType d'' (Suc ?k) = ftype f"
        "tagName d'' (Suc ?k) = ftag f"
      using domify_result [OF p, of d] by blast
    have "Inr (firstChild ?d' ?k, ?d') = (Inr (Some (Suc ?k), d'') :: error + nat option \<times> dom)"
      using dd unfolding dm .
    then have a: "firstChild ?d' ?k = Some (Suc ?k)" and b: "d'' = ?d'" by blast+
    show ?thesis using a r [unfolded b] by blast
  qed
  have all: "\<forall>f fs. parseHTML b html = f # fs \<longrightarrow>
      (\<exists>e. firstChild ?d' ?k = Some e \<and> ?k < e \<and> parentNode ?d' e = Some ?k
            \<and> nodeType ?d' e = ftype f \<and> tagName ?d' e = ftag f)"
    using first by blast
  show ?thesis
    by (rule exI [of _ "firstChild ?d' ?k"], rule exI [of _ ?d'])
      (intro conjI dm cont refl none fr all)
qed

lemma example_parse_more:
  "parseHTML example_browser ''<span>hi</span>'' = [FElement ''span'' [] [FText ''hi'']]"
  "parseHTML example_browser '' '' = [FText '' '']"
  "parseHTML example_browser [] = []"
  by (simp_all add: example_browser_def arrow_html_def example_plain_host_def example_host_def
      ascii_whitespace_def)

text \<open>
  The example of C9: \<^verbatim>\<open>domify('<span>hi</span>')\<close> is a \<^verbatim>\<open>span\<close> whose only child is
  the text \<^verbatim>\<open>hi\<close>; and the empty string gives null.
\<close>

theorem domify_first_child_witness:
  "(case domify example_browser ''<span>hi</span>'' example_page of
      Inl err \<Rightarrow> False
    | Inr (res, d') \<Rightarrow>
        parentNode d' 6 = None \<and> res = firstChild d' 6
        \<and> (\<exists>e c. res = Some e \<and> nodeType d' e = ELEMENT_NODE \<and> tagName d' e = ''span''
               \<and> childNodes d' e = [c] \<and> nodeType d' c = TEXT_NODE \<and> textData d' c = ''hi''))
   \<and> (case domify example_browser [] example_page of
        Inl err \<Rightarrow> False
      | Inr (res, d') \<Rightarrow> res = None)"
proof -
  have k: "next_id example_page = 6" by (simp add: example_page_def)
  note T = domify_first_child [where b = example_browser and html = "''<span>hi</span>''"
      and d = example_page]
  note E = domify_first_child [where b = example_browser and html = "[]" and d = example_page]
  have kids: "case domify example_browser ''<span>hi</span>'' example_page of
      Inl err \<Rightarrow> False
    | Inr (res, d') \<Rightarrow> res = Some 7 \<and> childNodes d' 7 = [8] \<and> nodeType d' 8 = TEXT_NODE
         \<and> textData d' 8 = ''hi''"
    by (simp add: domify_def create_div createTextNode_def new_node_def
        set_innerHTML_def Let_def example_parse_more k appendChild_def detach_def firstChild_def
        example_page_def)
  have e: "case domify example_browser [] example_page of
        Inl err \<Rightarrow> False
      | Inr (res, d') \<Rightarrow> res = None"
    using E by (auto simp: example_parse_more)
  have t: "case domify example_browser ''<span>hi</span>'' example_page of
      Inl err \<Rightarrow> False
    | Inr (res, d') \<Rightarrow>
        parentNode d' 6 = None \<and> res = firstChild d' 6
        \<and> (\<exists>e c. res = Some e \<and> nodeType d' e = ELEMENT_NODE \<and> tagName d' e = ''span''
               \<and> childNodes d' e = [c] \<and> nodeType d' c = TEXT_NODE \<and> textData d' c = ''hi'')"
    using T kids
    by (auto simp: example_parse_more k ftype_def ftag_def split: prod.splits sum.splits)
  show ?thesis using t e by (rule conjI)
qed

text \<open>
  C9 as stated fails on a string of whitespace: the parser yields a text node holding
  the string, and \<^verbatim>\<open>firstChild\<close>, which does not skip text nodes, is that node.
\<close>

theorem domify_whitespace_is_not_null:
  "list_all ascii_whitespace '' ''
   \<and> (case domify example_browser '' '' example_page of
        Inl err \<Rightarrow> False
      | Inr (res, d') \<Rightarrow> res = Some 7 \<and> res \<noteq> None \<and> nodeType d' 7 = TEXT_NODE
                      \<and> textData d' 7 = '' '' \<and> firstChild d' 6 = Some 7)"
  by (simp add: domify_def create_div createTextNode_def new_node_def
      set_innerHTML_def Let_def example_parse_more appendChild_def detach_def firstChild_def
      example_page_def ascii_whitespace_def)

end
